theory Spec2Isabelle
  imports Main
begin

section \<open>Data model of \<open>threaded_engine_perdevice.cc\<close>\<close>

text \<open>
  The engine routes operator blocks either to inline execution or to the task queue of a
  worker block. Everything the C++ class keeps in its members is a field of the record
  \<open>Engine\<close>; worker blocks allocated with \<open>new\<close> live in an explicit heap (a list,
  the address of a block is its index), and the slots of the two
  \<open>std::array<std::unique_ptr<ThreadWorkerBlock>, kMaxNumGPUs>\<close> hold optional addresses
  (\<open>None\<close> is \<open>nullptr\<close>). Member names lose their trailing underscore, and the field
  \<open>prop\<close> of an operator is written \<open>prop'\<close>.
\<close>

text \<open>
  Modelled from the spec: the enum \<open>FnProperty\<close> is declared in the engine's public header,
  which is missing here. The spec lists the four property tags
  Async, CopyToDevice, CopyFromDevice and Normal; the source file names them
  \<open>kAsync\<close>, \<open>kCopyToGPU\<close> and \<open>kCopyFromGPU\<close>.
\<close>

datatype FnProperty = kNormal | kCopyFromGPU | kCopyToGPU | kAsync

text \<open>
  The compile-time constants the file uses but does not declare: the two device masks
  \<open>cpu::kDevMask\<close> and \<open>gpu::kDevMask\<close>, the array bound \<open>kMaxNumGPUs\<close>, and the
  macros \<open>MXNET_USE_CUDA\<close> and \<open>MXNET_USE_CUDNN\<close>. They are parameters of the model.
\<close>

record Constants =
  cpu_kDevMask :: int
  gpu_kDevMask :: int
  kMaxNumGPUs :: nat
  MXNET_USE_CUDA :: int
  MXNET_USE_CUDNN :: int

record Context =
  dev_mask :: int
  dev_id :: int

record ThreadedOpr =
  fn :: nat
  prop' :: FnProperty

record OprBlock =
  opr :: ThreadedOpr
  ctx :: Context

type_synonym stream_ptr = nat

record RunContext =
  stream :: "stream_ptr option"

type_synonym thread_id = nat
type_synonym block_ptr = nat

datatype error =
    CHECK_EQ_failed int int
  | CHECK_LT_failed nat nat
  | out_of_range nat
  | null_pointer

text \<open>
  \<open>GetGPUWorkerBlock\<close> takes the device id as \<open>size_t\<close> while \<open>Context\<close> stores an
  \<open>int\<close>: the implicit conversion wraps modulo \<open>2 ^ 64\<close>.
\<close>

definition size_t_of_int :: "int \<Rightarrow> nat" where
  "size_t_of_int i = nat (i mod 2 ^ 64)"

subsection \<open>The blocking queue\<close>

text \<open>
  Modelled from the spec: \<open>dmlc::ConcurrentBlockingQueue\<close> comes from
  \<open>dmlc/concurrency.h\<close>, a header of the dmlc library. The spec describes it
  as an unbounded FIFO queue with push, a blocking pop, and an idempotent shutdown signal
  after which all pops fail.
\<close>

record 'a ConcurrentBlockingQueue =
  fifo_queue :: "'a list"
  exit_now :: bool

definition new_queue :: "'a ConcurrentBlockingQueue" where
  "new_queue = \<lparr>fifo_queue = [], exit_now = False\<rparr>"

definition Push :: "'a ConcurrentBlockingQueue \<Rightarrow> 'a \<Rightarrow> 'a ConcurrentBlockingQueue" where
  "Push q x = q\<lparr>fifo_queue := fifo_queue q @ [x]\<rparr>"

definition SignalForKill :: "'a ConcurrentBlockingQueue \<Rightarrow> 'a ConcurrentBlockingQueue" where
  "SignalForKill q = q\<lparr>exit_now := True\<rparr>"

datatype 'a pop_result =
    PopTrue 'a "'a ConcurrentBlockingQueue"
  | PopFalse
  | PopBlocks

definition Pop :: "'a ConcurrentBlockingQueue \<Rightarrow> 'a pop_result" where
  "Pop q =
     (if exit_now q then PopFalse
      else case fifo_queue q of
             [] \<Rightarrow> PopBlocks
           | x # xs \<Rightarrow> PopTrue x (q\<lparr>fifo_queue := xs\<rparr>))"

subsection \<open>Thread pools and worker blocks\<close>

text \<open>
  Modelled from the spec: \<open>ThreadPool\<close> comes from \<open>thread_pool.h\<close>, a header that is
  missing here. The spec describes it as \<open>start(n, loop-body)\<close>, running the
  body on \<open>n\<close> threads until the body returns; tearing the pool down joins the threads.
  The body is recorded by what the lambda captures.
\<close>

datatype worker_body =
    CPUWorker_body
  | GPUWorker_body nat bool block_ptr

record ThreadPool =
  pool_size :: nat
  pool_body :: worker_body

definition new_ThreadPool :: "int \<Rightarrow> worker_body \<Rightarrow> ThreadPool" where
  "new_ThreadPool n f = \<lparr>pool_size = size_t_of_int n, pool_body = f\<rparr>"

record ThreadWorkerBlock =
  task_queue :: "OprBlock ConcurrentBlockingQueue"
  pool :: "ThreadPool option"

definition new_ThreadWorkerBlock :: ThreadWorkerBlock where
  "new_ThreadWorkerBlock = \<lparr>task_queue = new_queue, pool = None\<rparr>"

subsection \<open>The engine\<close>

record Engine =
  cpu_worker_nthreads :: int
  gpu_worker_nthreads :: int
  gpu_copy_nthreads :: int
  cpu_worker :: ThreadWorkerBlock
  gpu_normal_workers :: "block_ptr option list"
  gpu_copy_workers :: "block_ptr option list"
  heap :: "ThreadWorkerBlock list"
  executed :: "(thread_id \<times> RunContext \<times> OprBlock) list"

text \<open>
  Modelled from the spec: \<open>ExecuteOprBlock\<close> belongs to the base class \<open>ThreadedEngine\<close>
  (\<open>threaded_engine.h\<close>), which is missing here. The spec treats it as an opaque, synchronous
  execution entry point; the model records each call, with the thread that made it, in
  the field \<open>executed\<close>.
\<close>

definition ExecuteOprBlock :: "thread_id \<Rightarrow> RunContext \<Rightarrow> OprBlock \<Rightarrow> Engine \<Rightarrow> Engine" where
  "ExecuteOprBlock self run_ctx opr_block s =
     s\<lparr>executed := executed s @ [(self, run_ctx, opr_block)]\<rparr>"

text \<open>
  Modelled from the spec: \<open>dmlc::GetEnv\<close> comes from \<open>dmlc/parameter.h\<close>. It returns the
  value of the environment variable when it is set and the default otherwise.
\<close>

definition GetEnv :: "(string \<Rightarrow> int option) \<Rightarrow> string \<Rightarrow> int \<Rightarrow> int" where
  "GetEnv env key default_value = (case env key of None \<Rightarrow> default_value | Some v \<Rightarrow> v)"

text \<open>The constructor (lines 27 to 39). GPU blocks are created lazily.\<close>

definition ThreadedEnginePerDevice :: "Constants \<Rightarrow> (string \<Rightarrow> int option) \<Rightarrow> Engine" where
  "ThreadedEnginePerDevice K env =
     (let cpu_n = GetEnv env ''MXNET_CPU_WORKER_NTHREADS'' 2;
          gpu_n = GetEnv env ''MXNET_GPU_WORKER_NTHREADS'' 2;
          copy_n = GetEnv env ''MXNET_GPU_COPY_NTHREADS'' 1
      in \<lparr>cpu_worker_nthreads = cpu_n,
          gpu_worker_nthreads = gpu_n,
          gpu_copy_nthreads = copy_n,
          cpu_worker =
            new_ThreadWorkerBlock\<lparr>pool := Some (new_ThreadPool cpu_n CPUWorker_body)\<rparr>,
          gpu_normal_workers = replicate (kMaxNumGPUs K) None,
          gpu_copy_workers = replicate (kMaxNumGPUs K) None,
          heap = [],
          executed = []\<rparr>)"

text \<open>\<open>std::array::at\<close> throws \<open>std::out_of_range\<close> beyond the array.\<close>

definition at :: "'a list \<Rightarrow> nat \<Rightarrow> error + 'a" where
  "at xs i = (if i < length xs then Inr (xs ! i) else Inl (out_of_range i))"

definition workers_of :: "bool \<Rightarrow> Engine \<Rightarrow> block_ptr option list" where
  "workers_of is_copy s = (if is_copy then gpu_copy_workers s else gpu_normal_workers s)"

definition set_worker :: "bool \<Rightarrow> nat \<Rightarrow> block_ptr option \<Rightarrow> Engine \<Rightarrow> Engine" where
  "set_worker is_copy i p s =
     (if is_copy then s\<lparr>gpu_copy_workers := (gpu_copy_workers s)[i := p]\<rparr>
      else s\<lparr>gpu_normal_workers := (gpu_normal_workers s)[i := p]\<rparr>)"

definition is_copy_prop :: "FnProperty \<Rightarrow> bool" where
  "is_copy_prop p = (p = kCopyFromGPU \<or> p = kCopyToGPU)"

text \<open>
  \<open>GetGPUWorkerBlock\<close> (lines 94 to 123), run without interleaving: the lock guard is
  taken and released inside the call and leaves no trace in the state. The step-wise
  version with the mutex and several threads follows further down. Line 117 reads the
  pointer back from the slot that line 116 has just set.
\<close>

definition alloc_block :: "bool \<Rightarrow> nat \<Rightarrow> Engine \<Rightarrow> Engine" where
  \<comment> \<open>line 116: \<open>workers->at(dev_id).reset(new ThreadWorkerBlock())\<close>\<close>
  "alloc_block is_copy i s =
     set_worker is_copy i (Some (length (heap s))) (s\<lparr>heap := heap s @ [new_ThreadWorkerBlock]\<rparr>)"

definition start_pool :: "bool \<Rightarrow> nat \<Rightarrow> block_ptr \<Rightarrow> Engine \<Rightarrow> Engine" where
  \<comment> \<open>lines 115 and 118 to 120: \<open>block->pool.reset(new ThreadPool(nthread, ...))\<close>\<close>
  "start_pool is_copy i block s =
     (let nthread = (if is_copy then gpu_copy_nthreads s else gpu_worker_nthreads s)
      in s\<lparr>heap := (heap s)[block := (heap s ! block)
             \<lparr>pool := Some (new_ThreadPool nthread (GPUWorker_body i is_copy block))\<rparr>]\<rparr>)"

definition create_block :: "bool \<Rightarrow> nat \<Rightarrow> Engine \<Rightarrow> error + (block_ptr \<times> Engine)" where
  \<comment> \<open>lines 115 to 121\<close>
  "create_block is_copy i s =
     (let s1 = alloc_block is_copy i s
      in case at (workers_of is_copy s1) i of
           Inl e \<Rightarrow> Inl e
         | Inr None \<Rightarrow> Inl null_pointer
         | Inr (Some block) \<Rightarrow> Inr (block, start_pool is_copy i block s1))"

definition GetGPUWorkerBlock ::
  "Constants \<Rightarrow> Engine \<Rightarrow> nat \<Rightarrow> FnProperty \<Rightarrow> error + (block_ptr \<times> Engine)" where
  "GetGPUWorkerBlock K s i p =
     (let is_copy = is_copy_prop p in
      if \<not> i < kMaxNumGPUs K then Inl (CHECK_LT_failed i (kMaxNumGPUs K))
      else case at (workers_of is_copy s) i of
             Inl e \<Rightarrow> Inl e
           | Inr (Some block) \<Rightarrow> Inr (block, s)
           | Inr None \<Rightarrow>
               (case at (workers_of is_copy s) i of
                  Inl e \<Rightarrow> Inl e
                | Inr (Some block) \<Rightarrow> Inr (block, s)
                | Inr None \<Rightarrow> create_block is_copy i s))"

definition block_Push :: "block_ptr \<Rightarrow> OprBlock \<Rightarrow> Engine \<Rightarrow> Engine" where
  "block_Push b x s =
     s\<lparr>heap := (heap s)[b := (heap s ! b)\<lparr>task_queue := Push (task_queue (heap s ! b)) x\<rparr>]\<rparr>"

definition cpu_Push :: "OprBlock \<Rightarrow> Engine \<Rightarrow> Engine" where
  "cpu_Push x s =
     s\<lparr>cpu_worker := (cpu_worker s)\<lparr>task_queue := Push (task_queue (cpu_worker s)) x\<rparr>\<rparr>"

text \<open>\<open>PushToExecute\<close> (lines 44 to 61); \<open>self\<close> is the calling thread.\<close>

definition PushToExecute ::
  "Constants \<Rightarrow> thread_id \<Rightarrow> Engine \<Rightarrow> OprBlock \<Rightarrow> bool \<Rightarrow> error + Engine" where
  "PushToExecute K self s opr_block pusher_thread =
     (if prop' (opr opr_block) = kAsync \<and> pusher_thread then
        (if dev_mask (ctx opr_block) \<noteq> cpu_kDevMask K
         then Inl (CHECK_EQ_failed (dev_mask (ctx opr_block)) (cpu_kDevMask K))
         else let run_ctx = \<lparr>stream = None\<rparr>
              in Inr (ExecuteOprBlock self run_ctx opr_block s))
      else
        (let c = ctx opr_block in
         if dev_mask c = cpu_kDevMask K then Inr (cpu_Push opr_block s)
         else if dev_mask c \<noteq> gpu_kDevMask K
         then Inl (CHECK_EQ_failed (dev_mask c) (gpu_kDevMask K))
         else case GetGPUWorkerBlock K s (size_t_of_int (dev_id c)) (prop' (opr opr_block)) of
                Inl e \<Rightarrow> Inl e
              | Inr (block, s1) \<Rightarrow> Inr (block_Push block opr_block s1)))"

subsection \<open>Queues and slots as seen from outside\<close>

datatype queue_ref = cpu_queue | block_queue block_ptr

definition queue_of :: "Engine \<Rightarrow> queue_ref \<Rightarrow> OprBlock list" where
  "queue_of s q =
     (case q of
        cpu_queue \<Rightarrow> fifo_queue (task_queue (cpu_worker s))
      | block_queue b \<Rightarrow>
          (if b < length (heap s) then fifo_queue (task_queue (heap s ! b)) else []))"

definition slot :: "Engine \<Rightarrow> bool \<Rightarrow> nat \<Rightarrow> block_ptr option" where
  "slot s is_copy i =
     (if i < length (workers_of is_copy s) then workers_of is_copy s ! i else None)"

text \<open>
  The representation invariant of the engine: both arrays have \<open>kMaxNumGPUs\<close> slots, every
  stored pointer is a live block, no block is stored in two slots, and every block that was
  ever allocated is stored in some slot.
\<close>

definition engine_inv :: "Constants \<Rightarrow> Engine \<Rightarrow> bool" where
  "engine_inv K s \<longleftrightarrow>
     length (gpu_normal_workers s) = kMaxNumGPUs K \<and>
     length (gpu_copy_workers s) = kMaxNumGPUs K \<and>
     (\<forall>c i b. slot s c i = Some b \<longrightarrow> b < length (heap s)) \<and>
     (\<forall>c i c' i' b. slot s c i = Some b \<and> slot s c' i' = Some b \<longrightarrow> c = c' \<and> i = i') \<and>
     (\<forall>b < length (heap s). \<exists>c i. slot s c i = Some b)"

section \<open>Worker loops\<close>

text \<open>
  A worker loop calls \<open>Pop\<close> until it returns \<open>false\<close>. What the loop does depends only on
  the outcomes of its successive calls to \<open>Pop\<close>: \<open>Some x\<close> when \<open>Pop\<close> returned \<open>true\<close> and
  stored \<open>x\<close>, \<open>None\<close> when it returned \<open>false\<close>. When the outcomes run out, the thread is
  blocked inside \<open>Pop\<close> for good. Both loops (lines 146 to 148 and 161 to 163) are the same
  text.
\<close>

datatype 'a outcome = Returns 'a | Blocks 'a

fun worker_loop ::
  "thread_id \<Rightarrow> RunContext \<Rightarrow> OprBlock option list \<Rightarrow> Engine \<Rightarrow> Engine outcome" where
  "worker_loop self run_ctx [] s = Blocks s"
| "worker_loop self run_ctx (None # pops) s = Returns s"
| "worker_loop self run_ctx (Some opr_block # pops) s =
     worker_loop self run_ctx pops (ExecuteOprBlock self run_ctx opr_block s)"

text \<open>\<open>CPUWorker\<close> (lines 156 to 164).\<close>

definition CPUWorker :: "thread_id \<Rightarrow> OprBlock option list \<Rightarrow> Engine \<Rightarrow> Engine outcome" where
  "CPUWorker self pops s = (let run_ctx = \<lparr>stream = None\<rparr> in worker_loop self run_ctx pops s)"

text \<open>
  Modelled from the spec: \<open>mshadow::SetDevice\<close>, \<open>NewStream\<close> and \<open>DeleteStream\<close> come from
  the mshadow library. The spec only says that a stream is acquired at loop entry and
  released at loop exit; the model keeps the log of the calls, and \<open>NewStream\<close> numbers
  the streams in the order of their creation.
\<close>

datatype mshadow_call =
    SetDevice thread_id int
  | NewStream stream_ptr bool bool
  | DeleteStream stream_ptr

fun is_NewStream :: "mshadow_call \<Rightarrow> bool" where
  "is_NewStream (NewStream p b d) = True"
| "is_NewStream c = False"

definition mshadow_SetDevice :: "thread_id \<Rightarrow> int \<Rightarrow> mshadow_call list \<Rightarrow> mshadow_call list" where
  "mshadow_SetDevice self dev log = log @ [SetDevice self dev]"

definition mshadow_NewStream ::
  "bool \<Rightarrow> bool \<Rightarrow> mshadow_call list \<Rightarrow> stream_ptr \<times> mshadow_call list" where
  "mshadow_NewStream create_blas_handle create_dnn_handle log =
     (let p = length (filter is_NewStream log)
      in (p, log @ [NewStream p create_blas_handle create_dnn_handle]))"

definition mshadow_DeleteStream :: "stream_ptr \<Rightarrow> mshadow_call list \<Rightarrow> mshadow_call list" where
  "mshadow_DeleteStream p log = log @ [DeleteStream p]"

text \<open>
  \<open>GPUWorker\<close> takes the device id as \<open>int\<close>, the lambda passes the \<open>size_t\<close> it captured.
\<close>

definition int_of_size_t :: "nat \<Rightarrow> int" where
  "int_of_size_t n = (let r = int n mod 2 ^ 32 in if r < 2 ^ 31 then r else r - 2 ^ 32)"

text \<open>\<open>GPUWorker\<close> (lines 130 to 151). Without \<open>MXNET_USE_CUDA\<close> the body is empty.\<close>

definition GPUWorker ::
  "Constants \<Rightarrow> thread_id \<Rightarrow> int \<Rightarrow> bool \<Rightarrow> OprBlock option list \<Rightarrow>
   mshadow_call list \<times> Engine \<Rightarrow> (mshadow_call list \<times> Engine) outcome" where
  "GPUWorker K self dev is_copy_worker pops ls =
     (case ls of (log, s) \<Rightarrow>
        if MXNET_USE_CUDA K \<noteq> 0 then
          (let log1 = mshadow_SetDevice self dev log;
               (stream, log2) =
                  (if is_copy_worker then mshadow_NewStream False False log1
                   else mshadow_NewStream True (MXNET_USE_CUDNN K \<noteq> 0) log1);
               run_ctx = \<lparr>stream = Some stream\<rparr>
           in case worker_loop self run_ctx pops s of
                Blocks s' \<Rightarrow> Blocks (log2, s')
              | Returns s' \<Rightarrow> Returns (mshadow_DeleteStream stream log2, s'))
        else Returns (log, s))"

text \<open>
  What a thread of a pool runs: the lambda of lines 35 to 37 for the CPU pool, the lambda
  of lines 118 to 120 for a GPU pool.
\<close>

definition run_worker ::
  "Constants \<Rightarrow> thread_id \<Rightarrow> worker_body \<Rightarrow> OprBlock option list \<Rightarrow>
   mshadow_call list \<times> Engine \<Rightarrow> (mshadow_call list \<times> Engine) outcome" where
  "run_worker K self f pops ls =
     (case f of
        CPUWorker_body \<Rightarrow>
          (case ls of (log, s) \<Rightarrow>
             (case CPUWorker self pops s of
                Returns s' \<Rightarrow> Returns (log, s')
              | Blocks s' \<Rightarrow> Blocks (log, s')))
      | GPUWorker_body i is_copy block \<Rightarrow>
          GPUWorker K self (int_of_size_t i) is_copy pops ls)"

text \<open>The tasks a loop executes: the popped ones up to the first \<open>false\<close>.\<close>

fun popped_tasks :: "'a option list \<Rightarrow> 'a list" where
  "popped_tasks [] = []"
| "popped_tasks (None # pops) = []"
| "popped_tasks (Some x # pops) = x # popped_tasks pops"

section \<open>Tearing a worker block down\<close>

text \<open>
  The outcomes of the successive \<open>Pop\<close> calls of one thread on a queue that no other thread
  touches, and the queue it leaves behind.
\<close>

function drain :: "'a ConcurrentBlockingQueue \<Rightarrow> 'a option list \<times> 'a ConcurrentBlockingQueue" where
  "drain q =
     (case Pop q of
        PopFalse \<Rightarrow> ([None], q)
      | PopBlocks \<Rightarrow> ([], q)
      | PopTrue x q' \<Rightarrow> (let (pops, q'') = drain q' in (Some x # pops, q'')))"
  by pat_completeness auto
termination
  by (relation "measure (\<lambda>q. length (fifo_queue q))")
     (auto simp: Pop_def split: if_splits list.splits)

text \<open>
  A thread of the pool that has entered its loop is inside \<open>Pop\<close>, inside
  \<open>ExecuteOprBlock\<close> for the task it popped, or has left the loop.
\<close>

datatype worker_position = in_Pop | in_Execute OprBlock | has_returned

record worker_thread =
  wt_id :: thread_id
  wt_run_ctx :: RunContext
  wt_position :: worker_position

definition join ::
  "worker_thread \<Rightarrow> OprBlock ConcurrentBlockingQueue \<Rightarrow> Engine \<Rightarrow>
   (OprBlock ConcurrentBlockingQueue \<times> Engine) outcome" where
  "join th q s =
     (case wt_position th of
        has_returned \<Rightarrow> Returns (q, s)
      | in_Pop \<Rightarrow>
          (let (pops, q') = drain q
           in case worker_loop (wt_id th) (wt_run_ctx th) pops s of
                Returns s' \<Rightarrow> Returns (q', s') | Blocks s' \<Rightarrow> Blocks (q', s'))
      | in_Execute x \<Rightarrow>
          (let (pops, q') = drain q
           in case worker_loop (wt_id th) (wt_run_ctx th) (Some x # pops) s of
                Returns s' \<Rightarrow> Returns (q', s') | Blocks s' \<Rightarrow> Blocks (q', s')))"

text \<open>
  Modelled from the spec: the destructor of \<open>ThreadPool\<close> joins its threads one after the
  other; it returns once every loop body has returned.
\<close>

fun ThreadPool_dtor ::
  "worker_thread list \<Rightarrow> OprBlock ConcurrentBlockingQueue \<Rightarrow> Engine \<Rightarrow>
   (OprBlock ConcurrentBlockingQueue \<times> Engine) outcome" where
  "ThreadPool_dtor [] q s = Returns (q, s)"
| "ThreadPool_dtor (th # ths) q s =
     (case join th q s of
        Blocks r \<Rightarrow> Blocks r
      | Returns (q', s') \<Rightarrow> ThreadPool_dtor ths q' s')"

text \<open>
  \<open>~ThreadWorkerBlock\<close> (lines 71 to 73). The body of a destructor runs first; the members
  are destroyed after it in reverse order of declaration, \<open>pool\<close> before \<open>task_queue\<close>.
  The list holds the threads the pool started.
\<close>

definition ThreadWorkerBlock_dtor ::
  "ThreadWorkerBlock \<Rightarrow> worker_thread list \<Rightarrow> Engine \<Rightarrow>
   (OprBlock ConcurrentBlockingQueue \<times> Engine) outcome" where
  "ThreadWorkerBlock_dtor b threads s =
     (let q = SignalForKill (task_queue b)
      in case pool b of
           None \<Rightarrow> Returns (q, s)
         | Some p \<Rightarrow> ThreadPool_dtor threads q s)"

section \<open>\<open>GetGPUWorkerBlock\<close> step by step, with several threads\<close>

text \<open>
  Each access to the shared arrays, the heap and the mutex is one step of the calling
  thread; steps of different threads interleave in any order. A call is at one of the
  following places of lines 94 to 123.
\<close>

datatype call_state =
    Check
  | FirstRead
  | Lock
  | SecondRead
  | Create
  | Get
  | StartPool block_ptr
  | Unlock block_ptr
  | Returned block_ptr
  | Aborted error

fun is_Aborted :: "call_state \<Rightarrow> bool" where
  "is_Aborted (Aborted e) = True"
| "is_Aborted st = False"

fun holds_lock :: "call_state \<Rightarrow> bool" where
  "holds_lock SecondRead = True"
| "holds_lock Create = True"
| "holds_lock Get = True"
| "holds_lock (StartPool b) = True"
| "holds_lock (Unlock b) = True"
| "holds_lock st = False"

definition thread_step ::
  "Constants \<Rightarrow> thread_id \<Rightarrow> nat \<Rightarrow> FnProperty \<Rightarrow> thread_id option \<times> Engine \<Rightarrow> call_state \<Rightarrow>
   ((thread_id option \<times> Engine) \<times> call_state) option" where
  "thread_step K self i p ms st =
     (case ms of (m, s) \<Rightarrow>
      let is_copy = is_copy_prop p in
      case st of
        Check \<Rightarrow>
          Some ((m, s), if i < kMaxNumGPUs K then FirstRead
                        else Aborted (CHECK_LT_failed i (kMaxNumGPUs K)))
      | FirstRead \<Rightarrow>
          (case at (workers_of is_copy s) i of
             Inl e \<Rightarrow> Some ((m, s), Aborted e)
           | Inr (Some block) \<Rightarrow> Some ((m, s), Returned block)
           | Inr None \<Rightarrow> Some ((m, s), Lock))
      | Lock \<Rightarrow> (if m = None then Some ((Some self, s), SecondRead) else None)
      | SecondRead \<Rightarrow>
          (case at (workers_of is_copy s) i of
             Inl e \<Rightarrow> Some ((None, s), Aborted e)
           | Inr (Some block) \<Rightarrow> Some ((m, s), Unlock block)
           | Inr None \<Rightarrow> Some ((m, s), Create))
      | Create \<Rightarrow> Some ((m, alloc_block is_copy i s), Get)
      | Get \<Rightarrow>
          (case at (workers_of is_copy s) i of
             Inl e \<Rightarrow> Some ((None, s), Aborted e)
           | Inr (Some block) \<Rightarrow> Some ((m, s), StartPool block)
           | Inr None \<Rightarrow> Some ((None, s), Aborted null_pointer))
      | StartPool block \<Rightarrow> Some ((m, start_pool is_copy i block s), Unlock block)
      | Unlock block \<Rightarrow> Some ((None, s), Returned block)
      | Returned block \<Rightarrow> None
      | Aborted e \<Rightarrow> None)"

text \<open>A call run by its thread alone, for at most \<open>n\<close> steps.\<close>

fun run_call ::
  "nat \<Rightarrow> Constants \<Rightarrow> thread_id \<Rightarrow> nat \<Rightarrow> FnProperty \<Rightarrow> thread_id option \<times> Engine \<Rightarrow>
   call_state \<Rightarrow> (thread_id option \<times> Engine) \<times> call_state" where
  "run_call 0 K self i p ms st = (ms, st)"
| "run_call (Suc n) K self i p ms st =
     (case thread_step K self i p ms st of
        None \<Rightarrow> (ms, st)
      | Some (ms', st') \<Rightarrow> run_call n K self i p ms' st')"

record System =
  create_mutex :: "thread_id option"
  engine :: Engine
  calls :: "(nat \<times> FnProperty \<times> call_state) list"

definition no_abort :: "System \<Rightarrow> bool" where
  "no_abort \<sigma> = list_all (\<lambda>c. \<not> is_Aborted (snd (snd c))) (calls \<sigma>)"

text \<open>
  A step of the system: some thread takes the next step of its call, or a thread whose call
  has returned starts another call. A failed check stops the whole process.
\<close>

inductive step :: "Constants \<Rightarrow> System \<Rightarrow> System \<Rightarrow> bool" for K :: Constants where
  call_step:
    "t < length (calls \<sigma>) \<Longrightarrow> calls \<sigma> ! t = (i, p, st) \<Longrightarrow> no_abort \<sigma> \<Longrightarrow>
     thread_step K t i p (create_mutex \<sigma>, engine \<sigma>) st = Some ((m', s'), st') \<Longrightarrow>
     step K \<sigma> (\<sigma>\<lparr>create_mutex := m', engine := s', calls := (calls \<sigma>)[t := (i, p, st')]\<rparr>)"
| new_call:
    "t < length (calls \<sigma>) \<Longrightarrow> calls \<sigma> ! t = (i, p, Returned b) \<Longrightarrow> no_abort \<sigma> \<Longrightarrow>
     step K \<sigma> (\<sigma>\<lparr>calls := (calls \<sigma>)[t := (i', p', Check)]\<rparr>)"

text \<open>
  A schedule names the thread that takes the next step; a thread that cannot step (it waits
  for the mutex, or its call is over) is skipped.
\<close>

fun run_schedule :: "Constants \<Rightarrow> thread_id list \<Rightarrow> System \<Rightarrow> System" where
  "run_schedule K [] \<sigma> = \<sigma>"
| "run_schedule K (t # ts) \<sigma> =
     (if t < length (calls \<sigma>) \<and> no_abort \<sigma> then
        (case calls \<sigma> ! t of
           (i, p, st) \<Rightarrow>
             (case thread_step K t i p (create_mutex \<sigma>, engine \<sigma>) st of
                None \<Rightarrow> run_schedule K ts \<sigma>
              | Some ((m', s'), st') \<Rightarrow>
                  run_schedule K ts
                    (\<sigma>\<lparr>create_mutex := m', engine := s', calls := (calls \<sigma>)[t := (i, p, st')]\<rparr>)))
      else run_schedule K ts \<sigma>)"

definition initial :: "Constants \<Rightarrow> System \<Rightarrow> bool" where
  "initial K \<sigma> \<longleftrightarrow>
     create_mutex \<sigma> = None \<and> engine_inv K (engine \<sigma>) \<and>
     list_all (\<lambda>c. snd (snd c) = Check) (calls \<sigma>)"

definition reachable :: "Constants \<Rightarrow> System \<Rightarrow> bool" where
  "reachable K \<sigma> \<longleftrightarrow> (\<exists>\<sigma>0. initial K \<sigma>0 \<and> (step K)\<^sup>*\<^sup>* \<sigma>0 \<sigma>)"

text \<open>What holds of a call at each place, given the shared state.\<close>

fun call_inv :: "Constants \<Rightarrow> Engine \<Rightarrow> nat \<times> FnProperty \<times> call_state \<Rightarrow> bool" where
  "call_inv K s (i, p, Check) = True"
| "call_inv K s (i, p, Aborted e) =
     (kMaxNumGPUs K \<le> i \<and> e = CHECK_LT_failed i (kMaxNumGPUs K))"
| "call_inv K s (i, p, Create) = (i < kMaxNumGPUs K \<and> slot s (is_copy_prop p) i = None)"
| "call_inv K s (i, p, Get) = (i < kMaxNumGPUs K \<and> slot s (is_copy_prop p) i \<noteq> None)"
| "call_inv K s (i, p, StartPool b) = (i < kMaxNumGPUs K \<and> slot s (is_copy_prop p) i = Some b)"
| "call_inv K s (i, p, Unlock b) = (i < kMaxNumGPUs K \<and> slot s (is_copy_prop p) i = Some b)"
| "call_inv K s (i, p, Returned b) = (i < kMaxNumGPUs K \<and> slot s (is_copy_prop p) i = Some b)"
| "call_inv K s (i, p, st) = (i < kMaxNumGPUs K)"

definition system_inv :: "Constants \<Rightarrow> System \<Rightarrow> bool" where
  "system_inv K \<sigma> \<longleftrightarrow>
     engine_inv K (engine \<sigma>) \<and>
     (\<forall>t < length (calls \<sigma>).
        call_inv K (engine \<sigma>) (calls \<sigma> ! t) \<and>
        (holds_lock (snd (snd (calls \<sigma> ! t))) \<longleftrightarrow> create_mutex \<sigma> = Some t))"

section \<open>Example inputs\<close>

text \<open>
  A configuration with the device masks of mshadow, four GPU slots, CUDA and cuDNN
  enabled; an empty environment and one that sets the CPU worker count; operator blocks by
  property, device mask and device id; the engine as the constructor leaves it.
\<close>

definition K0 :: Constants where
  "K0 = \<lparr>cpu_kDevMask = 1, gpu_kDevMask = 2, kMaxNumGPUs = 4,
          MXNET_USE_CUDA = 1, MXNET_USE_CUDNN = 1\<rparr>"

definition K_no_cuda :: Constants where
  "K_no_cuda = \<lparr>cpu_kDevMask = 1, gpu_kDevMask = 2, kMaxNumGPUs = 4,
          MXNET_USE_CUDA = 0, MXNET_USE_CUDNN = 0\<rparr>"

definition env0 :: "string \<Rightarrow> int option" where
  "env0 = (\<lambda>key. None)"

definition env1 :: "string \<Rightarrow> int option" where
  "env1 = (\<lambda>key. if key = ''MXNET_CPU_WORKER_NTHREADS'' then Some 5 else None)"

definition task0 :: "FnProperty \<Rightarrow> int \<Rightarrow> int \<Rightarrow> OprBlock" where
  "task0 p m d = \<lparr>opr = \<lparr>fn = 0, prop' = p\<rparr>, ctx = \<lparr>dev_mask = m, dev_id = d\<rparr>\<rparr>"

definition s0 :: Engine where
  "s0 = ThreadedEnginePerDevice K0 env0"

text \<open>
  Two calls that race for the normal slot of device 1, the schedule that lets both read the
  empty slot before either takes the mutex, and a call with a device id beyond the bound.
\<close>

definition race0 :: System where
  "race0 = \<lparr>create_mutex = None, engine = s0,
            calls = [(1, kNormal, Check), (1, kAsync, Check)]\<rparr>"

definition race_schedule :: "thread_id list" where
  "race_schedule = [0, 1, 0, 1, 0, 0, 0, 0, 0, 0, 1, 1, 1]"

definition late0 :: System where
  "late0 = \<lparr>create_mutex = None, engine = s0, calls = [(9, kCopyToGPU, Check)]\<rparr>"

section \<open>The engine run by one thread\<close>

lemma inv_ctor: "engine_inv K (ThreadedEnginePerDevice K env)"
  by (simp add: engine_inv_def ThreadedEnginePerDevice_def slot_def workers_of_def Let_def)

lemma slot_alloc:
  "i < length (workers_of c s) \<Longrightarrow>
   slot (alloc_block c i s) c' i' =
     (if c' = c \<and> i' = i then Some (length (heap s)) else slot s c' i')"
  by (auto simp: alloc_block_def slot_def workers_of_def set_worker_def)

lemma heap_alloc: "heap (alloc_block c i s) = heap s @ [new_ThreadWorkerBlock]"
  by (simp add: alloc_block_def set_worker_def)

lemma lens_alloc:
  "length (gpu_normal_workers (alloc_block c i s)) = length (gpu_normal_workers s)"
  "length (gpu_copy_workers (alloc_block c i s)) = length (gpu_copy_workers s)"
  by (simp_all add: alloc_block_def set_worker_def)

lemma slot_start_pool: "slot (start_pool c i b s) c' i' = slot s c' i'"
  by (simp add: start_pool_def slot_def workers_of_def Let_def)

lemma heap_start_pool: "length (heap (start_pool c i b s)) = length (heap s)"
  by (simp add: start_pool_def Let_def)

lemma lens_start_pool:
  "gpu_normal_workers (start_pool c i b s) = gpu_normal_workers s"
  "gpu_copy_workers (start_pool c i b s) = gpu_copy_workers s"
  by (simp_all add: start_pool_def Let_def)

lemma len_workers_of: "engine_inv K s \<Longrightarrow> length (workers_of c s) = kMaxNumGPUs K"
  by (simp add: engine_inv_def workers_of_def)

lemma inv_alloc:
  assumes "engine_inv K s" "i < kMaxNumGPUs K" "slot s c i = None"
  shows "engine_inv K (alloc_block c i s)"
proof -
  let ?s = "alloc_block c i s"
  have l: "i < length (workers_of c s)" using assms len_workers_of by simp
  note sc = slot_alloc[OF l]
  have b: "\<And>c i b. slot s c i = Some b \<Longrightarrow> b < length (heap s)"
    using assms(1) unfolding engine_inv_def by blast
  have inj: "\<And>c i c' i' b. slot s c i = Some b \<Longrightarrow> slot s c' i' = Some b \<Longrightarrow> c = c' \<and> i = i'"
    using assms(1) unfolding engine_inv_def by blast
  have sur: "\<And>b. b < length (heap s) \<Longrightarrow> \<exists>c i. slot s c i = Some b"
    using assms(1) unfolding engine_inv_def by blast
  have 1: "length (gpu_normal_workers ?s) = kMaxNumGPUs K"
    "length (gpu_copy_workers ?s) = kMaxNumGPUs K"
    using assms(1) by (simp_all add: lens_alloc engine_inv_def)
  have 2: "slot ?s c' i' = Some b' \<Longrightarrow> b' < length (heap ?s)" for c' i' b'
    using b[of c' i' b'] by (auto simp: sc heap_alloc split: if_splits)
  have 3: "slot ?s c1 i1 = Some b' \<Longrightarrow> slot ?s c2 i2 = Some b' \<Longrightarrow> c1 = c2 \<and> i1 = i2"
    for c1 i1 c2 i2 b'
    using b[of c1 i1 b'] b[of c2 i2 b'] inj[of c1 i1 b' c2 i2]
    by (auto simp: sc split: if_splits)
  have 4: "\<exists>c' i'. slot ?s c' i' = Some b'" if "b' < length (heap ?s)" for b'
  proof (cases "b' = length (heap s)")
    case True
    then have "slot ?s c i = Some b'" by (simp add: sc)
    then show ?thesis by blast
  next
    case False
    with that have "b' < length (heap s)" by (simp add: heap_alloc)
    from sur[OF this] obtain c' i' where s: "slot s c' i' = Some b'" by blast
    have "\<not> (c' = c \<and> i' = i)"
    proof
      assume "c' = c \<and> i' = i"
      with s assms(3) show False by simp
    qed
    with s have "slot ?s c' i' = Some b'" unfolding sc by presburger
    then show ?thesis by blast
  qed
  show ?thesis unfolding engine_inv_def using 1 2 3 4 by blast
qed

lemma inv_start_pool: "engine_inv K s \<Longrightarrow> engine_inv K (start_pool c i b s)"
  by (simp add: engine_inv_def slot_start_pool heap_start_pool lens_start_pool)

lemma create_block_eq:
  "i < length (workers_of c s) \<Longrightarrow>
   create_block c i s =
     Inr (length (heap s), start_pool c i (length (heap s)) (alloc_block c i s))"
  using slot_alloc[of i c s c i]
  by (auto simp: create_block_def Let_def at_def slot_def alloc_block_def workers_of_def
      set_worker_def split: if_splits)

lemma GetGPUWorkerBlock_abort:
  "kMaxNumGPUs K \<le> i \<Longrightarrow> GetGPUWorkerBlock K s i p = Inl (CHECK_LT_failed i (kMaxNumGPUs K))"
  by (simp add: GetGPUWorkerBlock_def)

lemma GetGPUWorkerBlock_ready:
  assumes "engine_inv K s" "i < kMaxNumGPUs K" "slot s (is_copy_prop p) i = Some b"
  shows "GetGPUWorkerBlock K s i p = Inr (b, s)"
  using assms len_workers_of[OF assms(1), of "is_copy_prop p"]
  by (simp add: GetGPUWorkerBlock_def at_def slot_def)

lemma GetGPUWorkerBlock_empty:
  assumes "engine_inv K s" "i < kMaxNumGPUs K" "slot s (is_copy_prop p) i = None"
  shows "GetGPUWorkerBlock K s i p =
           Inr (length (heap s),
                start_pool (is_copy_prop p) i (length (heap s)) (alloc_block (is_copy_prop p) i s))"
proof -
  have l: "i < length (workers_of (is_copy_prop p) s)"
    using assms(2) len_workers_of[OF assms(1)] by simp
  have "GetGPUWorkerBlock K s i p = create_block (is_copy_prop p) i s"
    using assms l by (simp add: GetGPUWorkerBlock_def at_def slot_def)
  then show ?thesis by (simp add: create_block_eq[OF l])
qed

lemma GetGPUWorkerBlock_cases:
  assumes "engine_inv K s" "GetGPUWorkerBlock K s i p = Inr (b, s1)"
  shows "i < kMaxNumGPUs K \<and>
         ((slot s (is_copy_prop p) i = Some b \<and> s1 = s) \<or>
          (slot s (is_copy_prop p) i = None \<and> b = length (heap s) \<and>
           s1 = start_pool (is_copy_prop p) i (length (heap s)) (alloc_block (is_copy_prop p) i s)))"
proof -
  have i: "i < kMaxNumGPUs K"
    using assms(2) by (auto simp: GetGPUWorkerBlock_def Let_def split: if_splits)
  show ?thesis
  proof (cases "slot s (is_copy_prop p) i")
    case None
    from GetGPUWorkerBlock_empty[OF assms(1) i None] assms(2) i None show ?thesis by simp
  next
    case (Some a)
    from GetGPUWorkerBlock_ready[OF assms(1) i Some] assms(2) i Some show ?thesis by simp
  qed
qed

lemma GetGPUWorkerBlock_returns:
  assumes "engine_inv K s" "i < kMaxNumGPUs K"
  shows "\<exists>b s1. GetGPUWorkerBlock K s i p = Inr (b, s1)"
proof (cases "slot s (is_copy_prop p) i")
  case None
  from GetGPUWorkerBlock_empty[OF assms None] show ?thesis by blast
next
  case (Some b)
  from GetGPUWorkerBlock_ready[OF assms Some] show ?thesis by blast
qed

lemma GetGPUWorkerBlock_inv:
  assumes "engine_inv K s" "GetGPUWorkerBlock K s i p = Inr (b, s1)"
  shows "engine_inv K s1 \<and> slot s1 (is_copy_prop p) i = Some b \<and> b < length (heap s1)"
proof -
  from GetGPUWorkerBlock_cases[OF assms] have i: "i < kMaxNumGPUs K" and
    d: "(slot s (is_copy_prop p) i = Some b \<and> s1 = s) \<or>
        (slot s (is_copy_prop p) i = None \<and> b = length (heap s) \<and>
         s1 = start_pool (is_copy_prop p) i (length (heap s)) (alloc_block (is_copy_prop p) i s))"
    by auto
  from d show ?thesis
  proof
    assume "slot s (is_copy_prop p) i = Some b \<and> s1 = s"
    then show ?thesis using assms(1) by (auto simp: engine_inv_def)
  next
    assume a: "slot s (is_copy_prop p) i = None \<and> b = length (heap s) \<and>
         s1 = start_pool (is_copy_prop p) i (length (heap s)) (alloc_block (is_copy_prop p) i s)"
    have l: "i < length (workers_of (is_copy_prop p) s)"
      using i len_workers_of[OF assms(1)] by simp
    from a inv_alloc[OF assms(1) i] have "engine_inv K s1" by (simp add: inv_start_pool)
    moreover have "slot s1 (is_copy_prop p) i = Some b"
      using a by (simp add: slot_start_pool slot_alloc[OF l])
    moreover have "b < length (heap s1)" using a by (simp add: heap_start_pool heap_alloc)
    ultimately show ?thesis by simp
  qed
qed

lemma queue_of_cpu_Push:
  "queue_of (cpu_Push x s) q = (if q = cpu_queue then queue_of s q @ [x] else queue_of s q)"
  by (cases q) (simp_all add: queue_of_def cpu_Push_def Push_def)

lemma queue_of_block_Push:
  "b < length (heap s) \<Longrightarrow>
   queue_of (block_Push b x s) q = (if q = block_queue b then queue_of s q @ [x] else queue_of s q)"
  by (cases q) (auto simp: queue_of_def block_Push_def Push_def nth_list_update)

lemma queue_of_alloc: "queue_of (alloc_block c i s) q = queue_of s q"
  by (cases q) (auto simp: queue_of_def alloc_block_def set_worker_def nth_append
      new_ThreadWorkerBlock_def new_queue_def)

lemma heap_update_beyond: "\<not> b < length xs \<Longrightarrow> xs[b := y] = xs"
  by (simp add: list_update_beyond)

lemma task_queue_start_pool:
  "task_queue (heap (start_pool c i b s) ! x) = task_queue (heap s ! x)"
proof -
  consider "b < length (heap s)" "x = b" | "b < length (heap s)" "x \<noteq> b"
    | "\<not> b < length (heap s)" by blast
  then show ?thesis
  proof cases
    case 1
    then show ?thesis by (simp add: start_pool_def Let_def)
  next
    case 2
    then show ?thesis by (simp add: start_pool_def Let_def)
  next
    case 3
    then show ?thesis by (simp add: start_pool_def Let_def heap_update_beyond)
  qed
qed

lemma cpu_worker_start_pool: "cpu_worker (start_pool c i b s) = cpu_worker s"
  by (simp add: start_pool_def Let_def)

lemma queue_of_start_pool: "queue_of (start_pool c i b s) q = queue_of s q"
  by (cases q)
     (simp_all add: queue_of_def task_queue_start_pool heap_start_pool cpu_worker_start_pool)

lemma executed_simps:
  "executed (cpu_Push x s) = executed s"
  "executed (block_Push b x s) = executed s"
  "executed (alloc_block c i s) = executed s"
  "executed (start_pool c i b s) = executed s"
  by (auto simp: cpu_Push_def block_Push_def alloc_block_def start_pool_def set_worker_def Let_def)

lemma queue_of_ExecuteOprBlock: "queue_of (ExecuteOprBlock t r x s) q = queue_of s q"
  by (cases q) (simp_all add: queue_of_def ExecuteOprBlock_def)

lemma GetGPUWorkerBlock_frame:
  assumes "engine_inv K s" "GetGPUWorkerBlock K s i p = Inr (b, s1)"
  shows "executed s1 = executed s \<and> (\<forall>q. queue_of s1 q = queue_of s q)"
  using GetGPUWorkerBlock_cases[OF assms]
  by (auto simp: executed_simps queue_of_alloc queue_of_start_pool)

lemma slot_block_Push: "slot (block_Push b x s) c i = slot s c i"
  by (simp add: slot_def workers_of_def block_Push_def)

lemma workers_block_Push:
  "gpu_copy_workers (block_Push b x s) = gpu_copy_workers s"
  "gpu_normal_workers (block_Push b x s) = gpu_normal_workers s"
  "length (heap (block_Push b x s)) = length (heap s)"
  by (simp_all add: block_Push_def)

lemma inv_frame:
  assumes "engine_inv K s"
    and "gpu_normal_workers s' = gpu_normal_workers s"
    and "gpu_copy_workers s' = gpu_copy_workers s"
    and "length (heap s') = length (heap s)"
  shows "engine_inv K s'"
proof -
  have "slot s' c i = slot s c i" for c i
    using assms(2,3) by (simp add: slot_def workers_of_def)
  with assms show ?thesis by (simp add: engine_inv_def)
qed

lemma PushToExecute_inv:
  assumes "engine_inv K s" and "PushToExecute K self s opr_block pusher_thread = Inr s'"
  shows "engine_inv K s'"
proof (cases "prop' (opr opr_block) = kAsync \<and> pusher_thread")
  case True
  with assms(2) have e: "s' = ExecuteOprBlock self \<lparr>stream = None\<rparr> opr_block s"
    by (auto simp: PushToExecute_def split: if_splits)
  show ?thesis unfolding e
    by (rule inv_frame[OF assms(1)]) (simp_all add: ExecuteOprBlock_def)
next
  case False
  show ?thesis
  proof (cases "dev_mask (ctx opr_block) = cpu_kDevMask K")
    case True
    with False assms(2) have e: "s' = cpu_Push opr_block s" by (auto simp: PushToExecute_def)
    show ?thesis unfolding e
      by (rule inv_frame[OF assms(1)]) (simp_all add: cpu_Push_def)
  next
    case notcpu: False
    with False assms(2) obtain b s1 where
      g: "GetGPUWorkerBlock K s (size_t_of_int (dev_id (ctx opr_block))) (prop' (opr opr_block))
            = Inr (b, s1)"
      and s': "s' = block_Push b opr_block s1"
      by (auto simp: PushToExecute_def Let_def split: if_splits sum.splits)
    from GetGPUWorkerBlock_inv[OF assms(1) g] have i1: "engine_inv K s1" by simp
    show ?thesis unfolding s'
      by (rule inv_frame[OF i1]) (simp_all add: workers_block_Push)
  qed
qed

lemma s0_simps:
  "s0 = \<lparr>cpu_worker_nthreads = 2, gpu_worker_nthreads = 2, gpu_copy_nthreads = 1,
         cpu_worker = \<lparr>task_queue = \<lparr>fifo_queue = [], exit_now = False\<rparr>,
                       pool = Some \<lparr>pool_size = 2, pool_body = CPUWorker_body\<rparr>\<rparr>,
         gpu_normal_workers = [None, None, None, None],
         gpu_copy_workers = [None, None, None, None],
         heap = [], executed = []\<rparr>"
  by (simp add: s0_def ThreadedEnginePerDevice_def K0_def env0_def GetEnv_def Let_def
      new_ThreadWorkerBlock_def new_queue_def new_ThreadPool_def size_t_of_int_def
      numeral_eq_Suc)

subsection \<open>Dispatch\<close>

lemma dispatch_effect:
  assumes "engine_inv K s" and "PushToExecute K self s opr_block pusher_thread = Inr s'"
  shows "((prop' (opr opr_block) = kAsync \<and> pusher_thread) \<and>
          executed s' = executed s @ [(self, \<lparr>stream = None\<rparr>, opr_block)] \<and>
          (\<forall>q. queue_of s' q = queue_of s q))
       \<or> (\<not> (prop' (opr opr_block) = kAsync \<and> pusher_thread) \<and>
          executed s' = executed s \<and>
          (\<exists>q. (q = cpu_queue \<or> (\<exists>c i block. q = block_queue block \<and> slot s' c i = Some block)) \<and>
               queue_of s' q = queue_of s q @ [opr_block] \<and>
               (\<forall>q'. q' \<noteq> q \<longrightarrow> queue_of s' q' = queue_of s q')))"
proof (cases "prop' (opr opr_block) = kAsync \<and> pusher_thread")
  case True
  with assms(2) have "s' = ExecuteOprBlock self \<lparr>stream = None\<rparr> opr_block s"
    by (auto simp: PushToExecute_def split: if_splits)
  then show ?thesis using True by (simp add: queue_of_ExecuteOprBlock) (simp add: ExecuteOprBlock_def)
next
  case False
  show ?thesis
  proof (cases "dev_mask (ctx opr_block) = cpu_kDevMask K")
    case True
    with False assms(2) have "s' = cpu_Push opr_block s"
      by (auto simp: PushToExecute_def)
    then show ?thesis using False by (auto simp: executed_simps queue_of_cpu_Push)
  next
    case notcpu: False
    with False assms(2) obtain b s1 where
      g: "GetGPUWorkerBlock K s (size_t_of_int (dev_id (ctx opr_block))) (prop' (opr opr_block)) = Inr (b, s1)"
      and s': "s' = block_Push b opr_block s1"
      by (auto simp: PushToExecute_def Let_def split: if_splits sum.splits)
    from GetGPUWorkerBlock_inv[OF assms(1) g] have b: "b < length (heap s1)"
      and sl: "slot s1 (is_copy_prop (prop' (opr opr_block)))
                 (size_t_of_int (dev_id (ctx opr_block))) = Some b" by simp_all
    from GetGPUWorkerBlock_frame[OF assms(1) g]
    have f: "executed s1 = executed s" "\<And>q. queue_of s1 q = queue_of s q" by auto
    have "queue_of s' (block_queue b) = queue_of s (block_queue b) @ [opr_block]"
      using s' queue_of_block_Push[OF b] f by simp
    moreover have "\<forall>q'. q' \<noteq> block_queue b \<longrightarrow> queue_of s' q' = queue_of s q'"
      using s' queue_of_block_Push[OF b] f by simp
    moreover have "executed s' = executed s" using s' f by (simp add: executed_simps)
    moreover have "\<exists>c i block. block_queue b = block_queue block \<and> slot s' c i = Some block"
      using sl by (auto simp: s' slot_block_Push)
    ultimately show ?thesis using False by blast
  qed
qed


lemma dispatch_returns_iff:
  assumes "engine_inv K s"
  shows "(\<exists>s'. PushToExecute K self s opr_block pusher_thread = Inr s') \<longleftrightarrow>
         (if prop' (opr opr_block) = kAsync \<and> pusher_thread
          then dev_mask (ctx opr_block) = cpu_kDevMask K
          else dev_mask (ctx opr_block) = cpu_kDevMask K \<or>
               (dev_mask (ctx opr_block) = gpu_kDevMask K \<and>
                size_t_of_int (dev_id (ctx opr_block)) < kMaxNumGPUs K))"
proof (cases "prop' (opr opr_block) = kAsync \<and> pusher_thread")
  case True
  then show ?thesis by (auto simp: PushToExecute_def)
next
  case False
  let ?i = "size_t_of_int (dev_id (ctx opr_block))"
  let ?p = "prop' (opr opr_block)"
  show ?thesis
  proof (cases "dev_mask (ctx opr_block) = cpu_kDevMask K")
    case True
    with False show ?thesis by (auto simp: PushToExecute_def)
  next
    case notcpu: False
    show ?thesis
    proof (cases "dev_mask (ctx opr_block) = gpu_kDevMask K")
      case nogpu: False
      with False notcpu show ?thesis by (auto simp: PushToExecute_def)
    next
      case gpu: True
      show ?thesis
      proof (cases "?i < kMaxNumGPUs K")
        case True
        from GetGPUWorkerBlock_returns[OF assms True] obtain b s1
          where "GetGPUWorkerBlock K s ?i ?p = Inr (b, s1)" by blast
        with False notcpu gpu True show ?thesis by (auto simp: PushToExecute_def Let_def)
      next
        case big: False
        then have "GetGPUWorkerBlock K s ?i ?p = Inl (CHECK_LT_failed ?i (kMaxNumGPUs K))"
          by (simp add: GetGPUWorkerBlock_abort)
        with False notcpu gpu big show ?thesis by (auto simp: PushToExecute_def Let_def)
      qed
    qed
  qed
qed

text \<open>
  Claim C1. A call of \<open>PushToExecute\<close> returns exactly when the block violates no contract:
  an inline block (Async, pushed by the pusher thread) must have the CPU mask, any other
  block the CPU mask or the GPU mask with a device id below \<open>kMaxNumGPUs\<close>. Whenever the call
  returns, exactly one of two things has happened, once: for an inline block,
  \<open>ExecuteOprBlock\<close> ran it (one more entry in \<open>executed\<close>, by the calling thread, every queue
  as before); for any other block, it was appended to exactly one queue, the CPU queue or
  the queue of the worker block of one GPU slot (every other queue and \<open>executed\<close> as
  before). The two cases exclude each other, and since the call returns for every block
  without a violation, one of them happens for each such block.
\<close>

theorem dispatch_exactly_once:
  assumes "engine_inv K s"
  shows "((\<exists>s'. PushToExecute K self s opr_block pusher_thread = Inr s') \<longleftrightarrow>
            (if prop' (opr opr_block) = kAsync \<and> pusher_thread
             then dev_mask (ctx opr_block) = cpu_kDevMask K
             else dev_mask (ctx opr_block) = cpu_kDevMask K \<or>
                  (dev_mask (ctx opr_block) = gpu_kDevMask K \<and>
                   size_t_of_int (dev_id (ctx opr_block)) < kMaxNumGPUs K)))
       \<and> (\<forall>s'. PushToExecute K self s opr_block pusher_thread = Inr s' \<longrightarrow>
            ((prop' (opr opr_block) = kAsync \<and> pusher_thread) \<and>
             executed s' = executed s @ [(self, \<lparr>stream = None\<rparr>, opr_block)] \<and>
             (\<forall>q. queue_of s' q = queue_of s q))
          \<or> (\<not> (prop' (opr opr_block) = kAsync \<and> pusher_thread) \<and>
             executed s' = executed s \<and>
             (\<exists>q. (q = cpu_queue \<or>
                   (\<exists>c i block. q = block_queue block \<and> slot s' c i = Some block)) \<and>
                  queue_of s' q = queue_of s q @ [opr_block] \<and>
                  (\<forall>q'. q' \<noteq> q \<longrightarrow> queue_of s' q' = queue_of s q'))))"
proof (rule conjI)
  show "(\<exists>s'. PushToExecute K self s opr_block pusher_thread = Inr s') \<longleftrightarrow>
            (if prop' (opr opr_block) = kAsync \<and> pusher_thread
             then dev_mask (ctx opr_block) = cpu_kDevMask K
             else dev_mask (ctx opr_block) = cpu_kDevMask K \<or>
                  (dev_mask (ctx opr_block) = gpu_kDevMask K \<and>
                   size_t_of_int (dev_id (ctx opr_block)) < kMaxNumGPUs K))"
    by (rule dispatch_returns_iff[OF assms])
  show "\<forall>s'. PushToExecute K self s opr_block pusher_thread = Inr s' \<longrightarrow>
            ((prop' (opr opr_block) = kAsync \<and> pusher_thread) \<and>
             executed s' = executed s @ [(self, \<lparr>stream = None\<rparr>, opr_block)] \<and>
             (\<forall>q. queue_of s' q = queue_of s q))
          \<or> (\<not> (prop' (opr opr_block) = kAsync \<and> pusher_thread) \<and>
             executed s' = executed s \<and>
             (\<exists>q. (q = cpu_queue \<or>
                   (\<exists>c i block. q = block_queue block \<and> slot s' c i = Some block)) \<and>
                  queue_of s' q = queue_of s q @ [opr_block] \<and>
                  (\<forall>q'. q' \<noteq> q \<longrightarrow> queue_of s' q' = queue_of s q')))"
    by (intro allI impI) (rule dispatch_effect[OF assms])
qed

theorem dispatch_exactly_once_witness:
  "engine_inv K0 s0 \<and>
   (\<exists>s'. PushToExecute K0 7 s0 (task0 kAsync 1 0) True = Inr s' \<and>
      executed s' = [(7, \<lparr>stream = None\<rparr>, task0 kAsync 1 0)] \<and>
      queue_of s' cpu_queue = []) \<and>
   (\<exists>s'. PushToExecute K0 7 s0 (task0 kNormal 1 0) True = Inr s' \<and>
      executed s' = [] \<and>
      (\<exists>q. queue_of s' q = [task0 kNormal 1 0] \<and> (\<forall>q'. q' \<noteq> q \<longrightarrow> queue_of s' q' = []))) \<and>
   (\<exists>s'. PushToExecute K0 7 s0 (task0 kCopyToGPU 2 3) False = Inr s' \<and>
      executed s' = [] \<and>
      (\<exists>q. queue_of s' q = [task0 kCopyToGPU 2 3] \<and> (\<forall>q'. q' \<noteq> q \<longrightarrow> queue_of s' q' = []))) \<and>
   \<not> (\<exists>s'. PushToExecute K0 7 s0 (task0 kNormal 4 0) False = Inr s') \<and>
   \<not> (\<exists>s'. PushToExecute K0 7 s0 (task0 kCopyToGPU 2 4) False = Inr s') \<and>
   \<not> (\<exists>s'. PushToExecute K0 7 s0 (task0 kAsync 2 0) True = Inr s')"
proof -
  have i: "engine_inv K0 s0" unfolding s0_def by (rule inv_ctor)
  have e: "executed s0 = []" by (simp add: s0_simps)
  have q: "\<And>r. queue_of s0 r = []" by (simp add: queue_of_def s0_simps split: queue_ref.split)
  have z: "size_t_of_int 3 = 3" "size_t_of_int 4 = 4" "size_t_of_int 0 = 0"
    by (simp_all add: size_t_of_int_def)
  note ta = dispatch_exactly_once[OF i, of 7 "task0 kAsync 1 0" True]
  note tc = dispatch_exactly_once[OF i, of 7 "task0 kNormal 1 0" True]
  note tg = dispatch_exactly_once[OF i, of 7 "task0 kCopyToGPU 2 3" False]
  note t1 = dispatch_exactly_once[OF i, of 7 "task0 kNormal 4 0" False]
  note t2 = dispatch_exactly_once[OF i, of 7 "task0 kCopyToGPU 2 4" False]
  note t3 = dispatch_exactly_once[OF i, of 7 "task0 kAsync 2 0" True]
  from ta[THEN conjunct1] obtain sa where ra: "PushToExecute K0 7 s0 (task0 kAsync 1 0) True = Inr sa"
    by (auto simp: task0_def K0_def)
  from ta[THEN conjunct2, rule_format, OF ra]
  have "executed sa = executed s0 @ [(7, \<lparr>stream = None\<rparr>, task0 kAsync 1 0)] \<and>
        (\<forall>q. queue_of sa q = queue_of s0 q)"
    by (simp add: task0_def)
  with ra have a: "\<exists>s'. PushToExecute K0 7 s0 (task0 kAsync 1 0) True = Inr s' \<and>
      executed s' = [(7, \<lparr>stream = None\<rparr>, task0 kAsync 1 0)] \<and> queue_of s' cpu_queue = []"
    unfolding e q by auto
  from tc[THEN conjunct1] obtain sc where rc: "PushToExecute K0 7 s0 (task0 kNormal 1 0) True = Inr sc"
    by (auto simp: task0_def K0_def)
  from tc[THEN conjunct2, rule_format, OF rc]
  have "executed sc = executed s0 \<and>
        (\<exists>q. queue_of sc q = queue_of s0 q @ [task0 kNormal 1 0] \<and>
             (\<forall>q'. q' \<noteq> q \<longrightarrow> queue_of sc q' = queue_of s0 q'))"
    by (auto simp: task0_def)
  with rc have c: "\<exists>s'. PushToExecute K0 7 s0 (task0 kNormal 1 0) True = Inr s' \<and>
      executed s' = [] \<and>
      (\<exists>q. queue_of s' q = [task0 kNormal 1 0] \<and> (\<forall>q'. q' \<noteq> q \<longrightarrow> queue_of s' q' = []))"
    unfolding e q by auto
  from tg[THEN conjunct1] obtain sg
    where rg: "PushToExecute K0 7 s0 (task0 kCopyToGPU 2 3) False = Inr sg"
    by (auto simp: task0_def K0_def z)
  from tg[THEN conjunct2, rule_format, OF rg]
  have "executed sg = executed s0 \<and>
        (\<exists>q. queue_of sg q = queue_of s0 q @ [task0 kCopyToGPU 2 3] \<and>
             (\<forall>q'. q' \<noteq> q \<longrightarrow> queue_of sg q' = queue_of s0 q'))"
    by (auto simp: task0_def)
  with rg have g: "\<exists>s'. PushToExecute K0 7 s0 (task0 kCopyToGPU 2 3) False = Inr s' \<and>
      executed s' = [] \<and>
      (\<exists>q. queue_of s' q = [task0 kCopyToGPU 2 3] \<and> (\<forall>q'. q' \<noteq> q \<longrightarrow> queue_of s' q' = []))"
    unfolding e q by auto
  from t1[THEN conjunct1]
  have n1: "\<not> (\<exists>s'. PushToExecute K0 7 s0 (task0 kNormal 4 0) False = Inr s')"
    by (simp add: task0_def K0_def)
  from t2[THEN conjunct1]
  have n2: "\<not> (\<exists>s'. PushToExecute K0 7 s0 (task0 kCopyToGPU 2 4) False = Inr s')"
    by (simp add: task0_def K0_def z)
  from t3[THEN conjunct1]
  have n3: "\<not> (\<exists>s'. PushToExecute K0 7 s0 (task0 kAsync 2 0) True = Inr s')"
    by (simp add: task0_def K0_def)
  from i a c g n1 n2 n3 show ?thesis by (intro conjI)
qed

text \<open>
  Claim C2. An Async block pushed with \<open>pusher_thread\<close> true: when its context targets the
  CPU, the call returns the state in which the calling thread \<open>self\<close> has executed the
  block with a run context whose stream is null, and which differs from the state before in
  nothing else, so no queue is touched; when its context does not target the CPU, the
  check fails and the process aborts.
\<close>

theorem async_origin_inline:
  assumes "prop' (opr opr_block) = kAsync"
  shows "PushToExecute K self s opr_block True =
           (if dev_mask (ctx opr_block) = cpu_kDevMask K
            then Inr (s\<lparr>executed := executed s @ [(self, \<lparr>stream = None\<rparr>, opr_block)]\<rparr>)
            else Inl (CHECK_EQ_failed (dev_mask (ctx opr_block)) (cpu_kDevMask K)))
         \<and> (\<forall>q. queue_of (s\<lparr>executed := executed s @ [(self, \<lparr>stream = None\<rparr>, opr_block)]\<rparr>) q
                = queue_of s q)"
proof
  show "PushToExecute K self s opr_block True =
           (if dev_mask (ctx opr_block) = cpu_kDevMask K
            then Inr (s\<lparr>executed := executed s @ [(self, \<lparr>stream = None\<rparr>, opr_block)]\<rparr>)
            else Inl (CHECK_EQ_failed (dev_mask (ctx opr_block)) (cpu_kDevMask K)))"
    using assms by (simp add: PushToExecute_def ExecuteOprBlock_def)
  show "\<forall>q. queue_of (s\<lparr>executed := executed s @ [(self, \<lparr>stream = None\<rparr>, opr_block)]\<rparr>) q
                = queue_of s q"
    using queue_of_ExecuteOprBlock[of self "\<lparr>stream = None\<rparr>" opr_block s]
    by (simp add: ExecuteOprBlock_def)
qed

theorem async_origin_inline_witness:
  "PushToExecute K0 7 s0 (task0 kAsync 1 0) True =
     Inr (s0\<lparr>executed := [(7, \<lparr>stream = None\<rparr>, task0 kAsync 1 0)]\<rparr>)
   \<and> PushToExecute K0 7 s0 (task0 kAsync 2 0) True = Inl (CHECK_EQ_failed 2 1)"
proof -
  have a: "prop' (opr (task0 kAsync 1 0)) = kAsync" "prop' (opr (task0 kAsync 2 0)) = kAsync"
    by (simp_all add: task0_def)
  have e: "executed s0 = []" by (simp add: s0_simps)
  show ?thesis
    using async_origin_inline[OF a(1), of K0 7 s0] async_origin_inline[OF a(2), of K0 7 s0] e
    by (simp add: task0_def K0_def)
qed

text \<open>
  Claim C3. A block not taken by the inline path: when its device mask is the CPU mask it
  is appended to the CPU queue, whatever its device id; when its device mask is the GPU
  mask and the call returns, the block was appended to the queue of the block that
  \<open>GetGPUWorkerBlock\<close> returned for its device id, and that block is the one stored at the
  device id in the copy array if the property is \<open>kCopyToGPU\<close> or \<open>kCopyFromGPU\<close>, in the
  normal array otherwise (\<open>kAsync\<close> included). The call returns exactly when the device id
  is below \<open>kMaxNumGPUs\<close>.
\<close>

theorem queued_routing:
  assumes "\<not> (prop' (opr opr_block) = kAsync \<and> pusher_thread)"
    and "cpu_kDevMask K \<noteq> gpu_kDevMask K"
    and "engine_inv K s"
  shows "(dev_mask (ctx opr_block) = cpu_kDevMask K \<longrightarrow>
            (\<exists>s'. PushToExecute K self s opr_block pusher_thread = Inr s' \<and>
                  executed s' = executed s \<and>
                  queue_of s' cpu_queue = queue_of s cpu_queue @ [opr_block] \<and>
                  (\<forall>q. q \<noteq> cpu_queue \<longrightarrow> queue_of s' q = queue_of s q)))
       \<and> (dev_mask (ctx opr_block) = gpu_kDevMask K \<longrightarrow>
            (\<forall>s'. PushToExecute K self s opr_block pusher_thread = Inr s' \<longrightarrow>
               (\<exists>s1 block.
                  GetGPUWorkerBlock K s (size_t_of_int (dev_id (ctx opr_block)))
                    (prop' (opr opr_block)) = Inr (block, s1) \<and>
                  s' = block_Push block opr_block s1 \<and>
                  (if prop' (opr opr_block) = kCopyToGPU \<or> prop' (opr opr_block) = kCopyFromGPU
                   then gpu_copy_workers s' else gpu_normal_workers s')
                    ! size_t_of_int (dev_id (ctx opr_block)) = Some block \<and>
                  block < length (heap s') \<and>
                  executed s' = executed s \<and>
                  queue_of s' (block_queue block) = queue_of s (block_queue block) @ [opr_block] \<and>
                  (\<forall>q. q \<noteq> block_queue block \<longrightarrow> queue_of s' q = queue_of s q))) \<and>
            ((\<exists>s'. PushToExecute K self s opr_block pusher_thread = Inr s') \<longleftrightarrow>
               size_t_of_int (dev_id (ctx opr_block)) < kMaxNumGPUs K))"
proof (intro conjI impI allI)
  assume c: "dev_mask (ctx opr_block) = cpu_kDevMask K"
  with assms(1) have "PushToExecute K self s opr_block pusher_thread = Inr (cpu_Push opr_block s)"
    by (auto simp: PushToExecute_def)
  then show "\<exists>s'. PushToExecute K self s opr_block pusher_thread = Inr s' \<and>
                  executed s' = executed s \<and>
                  queue_of s' cpu_queue = queue_of s cpu_queue @ [opr_block] \<and>
                  (\<forall>q. q \<noteq> cpu_queue \<longrightarrow> queue_of s' q = queue_of s q)"
    by (simp add: executed_simps queue_of_cpu_Push)
next
  let ?i = "size_t_of_int (dev_id (ctx opr_block))"
  let ?p = "prop' (opr opr_block)"
  fix s'
  assume g: "dev_mask (ctx opr_block) = gpu_kDevMask K"
    and r: "PushToExecute K self s opr_block pusher_thread = Inr s'"
  from g assms(1,2) r obtain block s1 where
    gb: "GetGPUWorkerBlock K s ?i ?p = Inr (block, s1)" and s': "s' = block_Push block opr_block s1"
    by (auto simp: PushToExecute_def Let_def split: if_splits sum.splits)
  from GetGPUWorkerBlock_inv[OF assms(3) gb]
  have sl: "slot s1 (is_copy_prop ?p) ?i = Some block" and b: "block < length (heap s1)" by auto
  from GetGPUWorkerBlock_frame[OF assms(3) gb]
  have f: "executed s1 = executed s" "\<And>q. queue_of s1 q = queue_of s q" by auto
  have w: "(if ?p = kCopyToGPU \<or> ?p = kCopyFromGPU
            then gpu_copy_workers s' else gpu_normal_workers s') ! ?i = Some block"
    using sl by (auto simp: s' slot_def workers_of_def is_copy_prop_def workers_block_Push
        split: if_splits)
  have q1: "queue_of s' (block_queue block) = queue_of s (block_queue block) @ [opr_block]"
    using queue_of_block_Push[OF b] f by (simp add: s')
  have q2: "\<forall>q. q \<noteq> block_queue block \<longrightarrow> queue_of s' q = queue_of s q"
    using queue_of_block_Push[OF b] f by (simp add: s')
  have e: "executed s' = executed s" using f by (simp add: s' executed_simps)
  have bl: "block < length (heap s')" using b by (simp add: s' workers_block_Push)
  from gb s' w bl e q1 q2
  show "\<exists>s1 block.
          GetGPUWorkerBlock K s ?i ?p = Inr (block, s1) \<and>
          s' = block_Push block opr_block s1 \<and>
          (if ?p = kCopyToGPU \<or> ?p = kCopyFromGPU
           then gpu_copy_workers s' else gpu_normal_workers s') ! ?i = Some block \<and>
          block < length (heap s') \<and>
          executed s' = executed s \<and>
          queue_of s' (block_queue block) = queue_of s (block_queue block) @ [opr_block] \<and>
          (\<forall>q. q \<noteq> block_queue block \<longrightarrow> queue_of s' q = queue_of s q)"
    by blast
next
  let ?i = "size_t_of_int (dev_id (ctx opr_block))"
  let ?p = "prop' (opr opr_block)"
  assume g: "dev_mask (ctx opr_block) = gpu_kDevMask K"
  show "(\<exists>s'. PushToExecute K self s opr_block pusher_thread = Inr s') \<longleftrightarrow> ?i < kMaxNumGPUs K"
  proof
    assume "\<exists>s'. PushToExecute K self s opr_block pusher_thread = Inr s'"
    then obtain s' where "PushToExecute K self s opr_block pusher_thread = Inr s'" by blast
    with g assms(1,2) obtain block s1 where "GetGPUWorkerBlock K s ?i ?p = Inr (block, s1)"
      by (auto simp: PushToExecute_def Let_def split: if_splits sum.splits)
    from GetGPUWorkerBlock_cases[OF assms(3) this] show "?i < kMaxNumGPUs K" by simp
  next
    assume "?i < kMaxNumGPUs K"
    from GetGPUWorkerBlock_returns[OF assms(3) this] obtain block s1
      where "GetGPUWorkerBlock K s ?i ?p = Inr (block, s1)" by blast
    with g assms(1,2) show "\<exists>s'. PushToExecute K self s opr_block pusher_thread = Inr s'"
      by (auto simp: PushToExecute_def Let_def)
  qed
qed

theorem queued_routing_witness:
  "\<not> (prop' (opr (task0 kCopyFromGPU 2 1)) = kAsync \<and> True) \<and>
   \<not> (prop' (opr (task0 kAsync 2 3)) = kAsync \<and> False) \<and>
   cpu_kDevMask K0 \<noteq> gpu_kDevMask K0 \<and> engine_inv K0 s0 \<and>
   dev_mask (ctx (task0 kCopyFromGPU 2 1)) = gpu_kDevMask K0 \<and>
   size_t_of_int (dev_id (ctx (task0 kCopyFromGPU 2 1))) < kMaxNumGPUs K0 \<and>
   (\<exists>s' block. PushToExecute K0 7 s0 (task0 kCopyFromGPU 2 1) True = Inr s' \<and>
       gpu_copy_workers s' ! 1 = Some block \<and>
       queue_of s' (block_queue block) = [task0 kCopyFromGPU 2 1]) \<and>
   (\<exists>s' block. PushToExecute K0 7 s0 (task0 kAsync 2 3) False = Inr s' \<and>
       gpu_normal_workers s' ! 3 = Some block \<and>
       queue_of s' (block_queue block) = [task0 kAsync 2 3]) \<and>
   (\<exists>s'. PushToExecute K0 7 s0 (task0 kAsync 1 3) False = Inr s' \<and>
       queue_of s' cpu_queue = [task0 kAsync 1 3])"
proof -
  let ?t = "task0 kCopyFromGPU 2 1" and ?u = "task0 kAsync 2 3" and ?v = "task0 kAsync 1 3"
  have h1: "\<not> (prop' (opr ?t) = kAsync \<and> True)" by (simp add: task0_def)
  have h1': "\<not> (prop' (opr ?u) = kAsync \<and> False)" "\<not> (prop' (opr ?v) = kAsync \<and> False)"
    by simp_all
  have h2: "cpu_kDevMask K0 \<noteq> gpu_kDevMask K0" by (simp add: K0_def)
  have h3: "engine_inv K0 s0" unfolding s0_def by (rule inv_ctor)
  have g: "dev_mask (ctx ?t) = gpu_kDevMask K0" "dev_mask (ctx ?u) = gpu_kDevMask K0"
    "dev_mask (ctx ?v) = cpu_kDevMask K0" by (simp_all add: task0_def K0_def)
  have i: "size_t_of_int (dev_id (ctx ?t)) = 1" "size_t_of_int (dev_id (ctx ?u)) = 3"
    by (simp_all add: task0_def size_t_of_int_def)
  have k: "size_t_of_int (dev_id (ctx ?t)) < kMaxNumGPUs K0"
    "size_t_of_int (dev_id (ctx ?u)) < kMaxNumGPUs K0" unfolding i by (simp_all add: K0_def)
  have p: "prop' (opr ?t) = kCopyFromGPU" "prop' (opr ?u) = kAsync" by (simp_all add: task0_def)
  have q: "\<And>r. queue_of s0 r = []" by (simp add: queue_of_def s0_simps split: queue_ref.split)
  note t1 = queued_routing[OF h1 h2 h3, of 7, THEN conjunct2, rule_format, OF g(1)]
  from t1 k(1) obtain s' where r1: "PushToExecute K0 7 s0 ?t True = Inr s'" by blast
  from t1[THEN conjunct1, rule_format, OF r1]
  obtain block where
    "(if prop' (opr ?t) = kCopyToGPU \<or> prop' (opr ?t) = kCopyFromGPU
       then gpu_copy_workers s' else gpu_normal_workers s')
         ! size_t_of_int (dev_id (ctx ?t)) = Some block"
    "queue_of s' (block_queue block) = queue_of s0 (block_queue block) @ [?t]"
    by blast
  with r1 have a: "\<exists>s' block. PushToExecute K0 7 s0 ?t True = Inr s' \<and>
       gpu_copy_workers s' ! 1 = Some block \<and> queue_of s' (block_queue block) = [?t]"
    unfolding i p q by auto
  note t2 = queued_routing[OF h1'(1) h2 h3, of 7, THEN conjunct2, rule_format, OF g(2)]
  from t2 k(2) obtain s'' where r2: "PushToExecute K0 7 s0 ?u False = Inr s''" by blast
  from t2[THEN conjunct1, rule_format, OF r2]
  obtain block' where
    "(if prop' (opr ?u) = kCopyToGPU \<or> prop' (opr ?u) = kCopyFromGPU
       then gpu_copy_workers s'' else gpu_normal_workers s'')
         ! size_t_of_int (dev_id (ctx ?u)) = Some block'"
    "queue_of s'' (block_queue block') = queue_of s0 (block_queue block') @ [?u]"
    by blast
  with r2 have b: "\<exists>s' block. PushToExecute K0 7 s0 ?u False = Inr s' \<and>
       gpu_normal_workers s' ! 3 = Some block \<and> queue_of s' (block_queue block) = [?u]"
    unfolding i p q by auto
  from queued_routing[OF h1'(2) h2 h3, of 7] g(3)
  obtain s3 where "PushToExecute K0 7 s0 ?v False = Inr s3"
    "queue_of s3 cpu_queue = queue_of s0 cpu_queue @ [?v]"
    by blast
  then have c: "\<exists>s'. PushToExecute K0 7 s0 ?v False = Inr s' \<and> queue_of s' cpu_queue = [?v]"
    unfolding q by auto
  from h1 h1'(1) h2 h3 g(1) k(1) a b c show ?thesis by (intro conjI)
qed

text \<open>
  Claim C9. A block not taken by the inline path whose device mask is neither the CPU mask
  nor the GPU mask makes the check on the GPU mask fail: the process aborts, nothing is
  queued and no state is returned.
\<close>

theorem unknown_device_class_aborts:
  assumes "\<not> (prop' (opr opr_block) = kAsync \<and> pusher_thread)"
    and "dev_mask (ctx opr_block) \<noteq> cpu_kDevMask K"
    and "dev_mask (ctx opr_block) \<noteq> gpu_kDevMask K"
  shows "PushToExecute K self s opr_block pusher_thread =
           Inl (CHECK_EQ_failed (dev_mask (ctx opr_block)) (gpu_kDevMask K))"
  using assms by (auto simp: PushToExecute_def)

theorem unknown_device_class_aborts_witness:
  "PushToExecute K0 7 s0 (task0 kNormal 4 0) False = Inl (CHECK_EQ_failed 4 2) \<and>
   PushToExecute K0 7 s0 (task0 kAsync 4 0) False = Inl (CHECK_EQ_failed 4 2)"
  using unknown_device_class_aborts[of "task0 kNormal 4 0" False K0 7 s0]
    unknown_device_class_aborts[of "task0 kAsync 4 0" False K0 7 s0]
  by (simp add: task0_def K0_def)

text \<open>
  Claim C10, as amended. The bound \<open>kMaxNumGPUs\<close> is checked on the GPU path only. A
  block with the CPU mask is never refused, for every device id \<open>d\<close>: when it is not taken
  by the inline path it is appended to the CPU queue, when it is taken by the inline path it
  is executed by the caller, in both cases without a look at its device id; and whenever
  \<open>PushToExecute\<close> fails the bound check the block has the GPU mask and went down the queued
  path.
\<close>

theorem cpu_path_ignores_device_id:
  assumes "dev_mask (ctx opr_block) = cpu_kDevMask K"
  shows "PushToExecute K self s (opr_block\<lparr>ctx := (ctx opr_block)\<lparr>dev_id := d\<rparr>\<rparr>) pusher_thread =
           (if prop' (opr opr_block) = kAsync \<and> pusher_thread
            then Inr (ExecuteOprBlock self \<lparr>stream = None\<rparr>
                        (opr_block\<lparr>ctx := (ctx opr_block)\<lparr>dev_id := d\<rparr>\<rparr>) s)
            else Inr (cpu_Push (opr_block\<lparr>ctx := (ctx opr_block)\<lparr>dev_id := d\<rparr>\<rparr>) s))
       \<and> queue_of (cpu_Push (opr_block\<lparr>ctx := (ctx opr_block)\<lparr>dev_id := d\<rparr>\<rparr>) s) cpu_queue =
           queue_of s cpu_queue @ [opr_block\<lparr>ctx := (ctx opr_block)\<lparr>dev_id := d\<rparr>\<rparr>]
       \<and> (\<forall>b pt a n. PushToExecute K self s b pt = Inl (CHECK_LT_failed a n) \<longrightarrow>
             dev_mask (ctx b) = gpu_kDevMask K \<and> dev_mask (ctx b) \<noteq> cpu_kDevMask K \<and>
             \<not> (prop' (opr b) = kAsync \<and> pt))"
proof (intro conjI allI impI)
  show "PushToExecute K self s (opr_block\<lparr>ctx := (ctx opr_block)\<lparr>dev_id := d\<rparr>\<rparr>) pusher_thread =
           (if prop' (opr opr_block) = kAsync \<and> pusher_thread
            then Inr (ExecuteOprBlock self \<lparr>stream = None\<rparr>
                        (opr_block\<lparr>ctx := (ctx opr_block)\<lparr>dev_id := d\<rparr>\<rparr>) s)
            else Inr (cpu_Push (opr_block\<lparr>ctx := (ctx opr_block)\<lparr>dev_id := d\<rparr>\<rparr>) s))"
    using assms by (auto simp: PushToExecute_def)
  show "queue_of (cpu_Push (opr_block\<lparr>ctx := (ctx opr_block)\<lparr>dev_id := d\<rparr>\<rparr>) s) cpu_queue =
           queue_of s cpu_queue @ [opr_block\<lparr>ctx := (ctx opr_block)\<lparr>dev_id := d\<rparr>\<rparr>]"
    by (simp add: queue_of_cpu_Push)
next
  fix b pt a n
  assume f: "PushToExecute K self s b pt = Inl (CHECK_LT_failed a n)"
  then show "dev_mask (ctx b) = gpu_kDevMask K"
    by (auto simp: PushToExecute_def Let_def split: if_splits)
  from f show "dev_mask (ctx b) \<noteq> cpu_kDevMask K"
    by (auto simp: PushToExecute_def Let_def split: if_splits)
  from f show "\<not> (prop' (opr b) = kAsync \<and> pt)"
    by (auto simp: PushToExecute_def Let_def split: if_splits)
qed

theorem cpu_path_ignores_device_id_witness:
  "dev_mask (ctx (task0 kNormal 1 0)) = cpu_kDevMask K0 \<and>
   PushToExecute K0 7 s0 (task0 kNormal 1 99) False = Inr (cpu_Push (task0 kNormal 1 99) s0) \<and>
   queue_of (cpu_Push (task0 kNormal 1 99) s0) cpu_queue = [task0 kNormal 1 99] \<and>
   \<not> (99 < int (kMaxNumGPUs K0))"
proof -
  have q: "queue_of s0 cpu_queue = []" by (simp add: queue_of_def s0_simps)
  have t: "(task0 kNormal 1 0)\<lparr>ctx := (ctx (task0 kNormal 1 0))\<lparr>dev_id := 99\<rparr>\<rparr> = task0 kNormal 1 99"
    by (simp add: task0_def)
  have m: "dev_mask (ctx (task0 kNormal 1 0)) = cpu_kDevMask K0" by (simp add: task0_def K0_def)
  show ?thesis
    using cpu_path_ignores_device_id[OF m, of 7 s0 99 False] q m
    unfolding t by (simp add: task0_def K0_def)
qed

text \<open>
  Claim C10 as stated fails for a block with the CPU mask that is taken by the inline path:
  it is executed by the caller and the CPU queue stays as it was.
\<close>

theorem cpu_async_not_queued:
  "PushToExecute K0 7 s0 (task0 kAsync 1 99) True =
     Inr (s0\<lparr>executed := [(7, \<lparr>stream = None\<rparr>, task0 kAsync 1 99)]\<rparr>) \<and>
   queue_of (s0\<lparr>executed := [(7, \<lparr>stream = None\<rparr>, task0 kAsync 1 99)]\<rparr>) cpu_queue = [] \<and>
   queue_of s0 cpu_queue = []"
  by (simp add: PushToExecute_def ExecuteOprBlock_def task0_def K0_def queue_of_def s0_simps)

section \<open>The constructor\<close>

lemma size_t_of_int_nat: "0 \<le> n \<Longrightarrow> n < 2 ^ 64 \<Longrightarrow> size_t_of_int n = nat n"
  by (simp add: size_t_of_int_def)

lemma slot_ctor: "slot (ThreadedEnginePerDevice K env) c i = None"
  by (simp add: slot_def workers_of_def ThreadedEnginePerDevice_def Let_def)

text \<open>
  Claim C8, as amended. The constructor takes no argument: it reads the three worker counts
  from the environment variables \<open>MXNET_CPU_WORKER_NTHREADS\<close>,
  \<open>MXNET_GPU_WORKER_NTHREADS\<close> and \<open>MXNET_GPU_COPY_NTHREADS\<close>, with the defaults 2, 2 and
  1 for a variable that is not set. When the CPU count is a non-negative \<open>int\<close>, the engine
  it returns has its CPU worker block in place, an empty queue that is not shut down and a
  pool of that many threads running \<open>CPUWorker\<close>, before any block was executed or queued;
  no GPU worker block exists and every GPU slot is empty.
\<close>

theorem constructor_starts_cpu_block:
  assumes "0 \<le> GetEnv env ''MXNET_CPU_WORKER_NTHREADS'' 2"
    and "GetEnv env ''MXNET_CPU_WORKER_NTHREADS'' 2 < 2 ^ 31"
  shows "cpu_worker_nthreads (ThreadedEnginePerDevice K env) =
           (case env ''MXNET_CPU_WORKER_NTHREADS'' of None \<Rightarrow> 2 | Some n \<Rightarrow> n) \<and>
         gpu_worker_nthreads (ThreadedEnginePerDevice K env) =
           (case env ''MXNET_GPU_WORKER_NTHREADS'' of None \<Rightarrow> 2 | Some n \<Rightarrow> n) \<and>
         gpu_copy_nthreads (ThreadedEnginePerDevice K env) =
           (case env ''MXNET_GPU_COPY_NTHREADS'' of None \<Rightarrow> 1 | Some n \<Rightarrow> n) \<and>
         cpu_worker (ThreadedEnginePerDevice K env) =
           \<lparr>task_queue = \<lparr>fifo_queue = [], exit_now = False\<rparr>,
            pool = Some \<lparr>pool_size = nat (cpu_worker_nthreads (ThreadedEnginePerDevice K env)),
                        pool_body = CPUWorker_body\<rparr>\<rparr> \<and>
         heap (ThreadedEnginePerDevice K env) = [] \<and>
         (\<forall>c i. slot (ThreadedEnginePerDevice K env) c i = None) \<and>
         executed (ThreadedEnginePerDevice K env) = [] \<and>
         engine_inv K (ThreadedEnginePerDevice K env)"
proof -
  let ?n = "GetEnv env ''MXNET_CPU_WORKER_NTHREADS'' 2"
  have "?n < 2 ^ 64" using assms(2) by simp
  with assms(1) have n: "size_t_of_int ?n = nat ?n" by (rule size_t_of_int_nat)
  have 1: "cpu_worker_nthreads (ThreadedEnginePerDevice K env) = ?n"
    by (simp add: ThreadedEnginePerDevice_def Let_def)
  have 2: "cpu_worker (ThreadedEnginePerDevice K env) =
           \<lparr>task_queue = \<lparr>fifo_queue = [], exit_now = False\<rparr>,
            pool = Some \<lparr>pool_size = nat ?n, pool_body = CPUWorker_body\<rparr>\<rparr>"
    using n by (simp add: ThreadedEnginePerDevice_def Let_def new_ThreadWorkerBlock_def
        new_queue_def new_ThreadPool_def)
  have 3: "gpu_worker_nthreads (ThreadedEnginePerDevice K env) =
           (case env ''MXNET_GPU_WORKER_NTHREADS'' of None \<Rightarrow> 2 | Some n \<Rightarrow> n)"
    "gpu_copy_nthreads (ThreadedEnginePerDevice K env) =
           (case env ''MXNET_GPU_COPY_NTHREADS'' of None \<Rightarrow> 1 | Some n \<Rightarrow> n)"
    "heap (ThreadedEnginePerDevice K env) = []" "executed (ThreadedEnginePerDevice K env) = []"
    by (simp_all add: ThreadedEnginePerDevice_def Let_def GetEnv_def)
  have 4: "?n = (case env ''MXNET_CPU_WORKER_NTHREADS'' of None \<Rightarrow> 2 | Some n \<Rightarrow> n)"
    by (simp add: GetEnv_def)
  show ?thesis using 1 2 3 4 slot_ctor inv_ctor by simp
qed

theorem constructor_starts_cpu_block_witness:
  "0 \<le> GetEnv env1 ''MXNET_CPU_WORKER_NTHREADS'' 2 \<and>
   GetEnv env1 ''MXNET_CPU_WORKER_NTHREADS'' 2 < 2 ^ 31 \<and>
   cpu_worker_nthreads (ThreadedEnginePerDevice K0 env1) = 5 \<and>
   gpu_worker_nthreads (ThreadedEnginePerDevice K0 env1) = 2 \<and>
   gpu_copy_nthreads (ThreadedEnginePerDevice K0 env1) = 1 \<and>
   cpu_worker (ThreadedEnginePerDevice K0 env1) =
     \<lparr>task_queue = \<lparr>fifo_queue = [], exit_now = False\<rparr>,
      pool = Some \<lparr>pool_size = 5, pool_body = CPUWorker_body\<rparr>\<rparr> \<and>
   heap (ThreadedEnginePerDevice K0 env1) = []"
proof -
  have g: "GetEnv env1 ''MXNET_CPU_WORKER_NTHREADS'' 2 = 5" by (simp add: GetEnv_def env1_def)
  have h: "0 \<le> GetEnv env1 ''MXNET_CPU_WORKER_NTHREADS'' 2"
    "GetEnv env1 ''MXNET_CPU_WORKER_NTHREADS'' 2 < 2 ^ 31" unfolding g by simp_all
  have e: "env1 ''MXNET_CPU_WORKER_NTHREADS'' = Some 5" "env1 ''MXNET_GPU_WORKER_NTHREADS'' = None"
    "env1 ''MXNET_GPU_COPY_NTHREADS'' = None" by (simp_all add: env1_def)
  from constructor_starts_cpu_block[OF h, of K0] h show ?thesis
    unfolding e by simp
qed

text \<open>
  Claim C8 as stated fails: the counts are not parameters of the constructor. Two
  constructions that differ in the environment only give pools of different sizes.
\<close>

theorem constructor_reads_environment:
  "pool (cpu_worker (ThreadedEnginePerDevice K0 env0)) =
     Some \<lparr>pool_size = 2, pool_body = CPUWorker_body\<rparr> \<and>
   pool (cpu_worker (ThreadedEnginePerDevice K0 env1)) =
     Some \<lparr>pool_size = 5, pool_body = CPUWorker_body\<rparr> \<and>
   ThreadedEnginePerDevice K0 env0 \<noteq> ThreadedEnginePerDevice K0 env1"
proof -
  have a: "pool (cpu_worker (ThreadedEnginePerDevice K0 env0)) =
     Some \<lparr>pool_size = 2, pool_body = CPUWorker_body\<rparr>"
    by (simp add: ThreadedEnginePerDevice_def Let_def GetEnv_def env0_def new_ThreadPool_def
        new_ThreadWorkerBlock_def size_t_of_int_def)
  have b: "pool (cpu_worker (ThreadedEnginePerDevice K0 env1)) =
     Some \<lparr>pool_size = 5, pool_body = CPUWorker_body\<rparr>"
    by (simp add: ThreadedEnginePerDevice_def Let_def GetEnv_def env1_def new_ThreadPool_def
        new_ThreadWorkerBlock_def size_t_of_int_def)
  from a b have "ThreadedEnginePerDevice K0 env0 \<noteq> ThreadedEnginePerDevice K0 env1"
    by auto
  with a b show ?thesis by simp
qed

section \<open>The worker loops\<close>

lemma worker_loop_eq:
  "worker_loop self run_ctx pops s =
     (if None \<in> set pops
      then Returns (s\<lparr>executed := executed s @ map (\<lambda>x. (self, run_ctx, x)) (popped_tasks pops)\<rparr>)
      else Blocks (s\<lparr>executed := executed s @ map (\<lambda>x. (self, run_ctx, x)) (popped_tasks pops)\<rparr>))"
  by (induction self run_ctx pops s rule: worker_loop.induct)
     (simp_all add: ExecuteOprBlock_def)

lemma int_of_size_t_small: "n < 2 ^ 31 \<Longrightarrow> int_of_size_t n = int n"
proof -
  assume n: "n < 2 ^ 31"
  then have "int n < 2 ^ 31" by (metis of_nat_less_iff of_nat_numeral of_nat_power)
  moreover from this have "int n mod 2 ^ 32 = int n" by simp
  ultimately show ?thesis by (simp add: int_of_size_t_def)
qed

lemma CPUWorker_eq:
  "CPUWorker self pops s =
     (if None \<in> set pops
      then Returns (s\<lparr>executed := executed s @
                        map (\<lambda>x. (self, \<lparr>stream = None\<rparr>, x)) (popped_tasks pops)\<rparr>)
      else Blocks (s\<lparr>executed := executed s @
                        map (\<lambda>x. (self, \<lparr>stream = None\<rparr>, x)) (popped_tasks pops)\<rparr>))"
  by (simp add: CPUWorker_def worker_loop_eq)

lemma run_worker_GPU:
  "i < 2 ^ 31 \<Longrightarrow>
   run_worker K self (GPUWorker_body i c b) pops ls = GPUWorker K self (int i) c pops ls"
  by (simp add: run_worker_def int_of_size_t_small)

text \<open>
  Claim C7, as amended. In a build with \<open>MXNET_USE_CUDA\<close>, \<open>GPUWorker\<close> selects its
  device and acquires exactly one stream on entry, without BLAS and cuDNN handles for a copy
  worker, with a BLAS handle and, if \<open>MXNET_USE_CUDNN\<close> is set, a cuDNN handle for a normal
  worker; every block it pops is executed with a run context holding that stream; the
  stream is deleted once, after \<open>Pop\<close> has returned \<open>false\<close>, and then the worker returns.
  As long as \<open>Pop\<close> has not returned \<open>false\<close> the stream is not deleted. In a build
  without \<open>MXNET_USE_CUDA\<close> the worker returns at once: no stream, no execution.
\<close>

theorem gpu_worker_single_stream:
  "(MXNET_USE_CUDA K \<noteq> 0 \<longrightarrow>
      GPUWorker K self dev is_copy_worker pops (log, s) =
        (let stream = length (filter is_NewStream log);
             acquired = log @ [SetDevice self dev,
                               NewStream stream (\<not> is_copy_worker)
                                 (\<not> is_copy_worker \<and> MXNET_USE_CUDNN K \<noteq> 0)];
             s' = s\<lparr>executed := executed s @
                     map (\<lambda>x. (self, \<lparr>stream = Some stream\<rparr>, x)) (popped_tasks pops)\<rparr>
         in if None \<in> set pops then Returns (acquired @ [DeleteStream stream], s')
            else Blocks (acquired, s')))
   \<and> (MXNET_USE_CUDA K = 0 \<longrightarrow>
      GPUWorker K self dev is_copy_worker pops (log, s) = Returns (log, s))"
  by (simp add: GPUWorker_def worker_loop_eq mshadow_SetDevice_def mshadow_NewStream_def
      mshadow_DeleteStream_def Let_def)

theorem gpu_worker_single_stream_witness:
  "MXNET_USE_CUDA K0 \<noteq> 0 \<and> MXNET_USE_CUDA K_no_cuda = 0 \<and>
   GPUWorker K0 9 0 False [Some (task0 kNormal 2 0), Some (task0 kAsync 2 0), None] ([], s0) =
     Returns ([SetDevice 9 0, NewStream 0 True True, DeleteStream 0],
              s0\<lparr>executed := [(9, \<lparr>stream = Some 0\<rparr>, task0 kNormal 2 0),
                               (9, \<lparr>stream = Some 0\<rparr>, task0 kAsync 2 0)]\<rparr>) \<and>
   GPUWorker K0 9 0 True [Some (task0 kCopyToGPU 2 0)] ([], s0) =
     Blocks ([SetDevice 9 0, NewStream 0 False False],
             s0\<lparr>executed := [(9, \<lparr>stream = Some 0\<rparr>, task0 kCopyToGPU 2 0)]\<rparr>) \<and>
   GPUWorker K_no_cuda 9 0 True [None] ([], s0) = Returns ([], s0)"
proof -
  have c: "MXNET_USE_CUDA K0 \<noteq> 0" "MXNET_USE_CUDA K_no_cuda = 0" "MXNET_USE_CUDNN K0 \<noteq> 0"
    by (simp_all add: K0_def K_no_cuda_def)
  have e: "executed s0 = []" by (simp add: s0_simps)
  show ?thesis
    using gpu_worker_single_stream[of K0 9 0 False
        "[Some (task0 kNormal 2 0), Some (task0 kAsync 2 0), None]" "[]" s0]
      gpu_worker_single_stream[of K0 9 0 True "[Some (task0 kCopyToGPU 2 0)]" "[]" s0]
      gpu_worker_single_stream[of K_no_cuda 9 0 True "[None]" "[]" s0]
      c e
    by (simp add: Let_def)
qed

text \<open>
  Claim C7 as stated fails in a build without \<open>MXNET_USE_CUDA\<close>: the worker returns
  with an empty call log although a block is waiting, so no stream was acquired and
  nothing was executed.
\<close>

theorem gpu_worker_without_cuda:
  "\<exists>log' s'.
     GPUWorker K_no_cuda 9 0 False [Some (task0 kNormal 2 0), None] ([], s0) = Returns (log', s') \<and>
     filter is_NewStream log' = [] \<and> executed s' = []"
  by (simp add: GPUWorker_def K_no_cuda_def s0_simps)

section \<open>Teardown of a worker block\<close>

declare drain.simps [simp del]

lemma drain_killed: "exit_now q \<Longrightarrow> drain q = ([None], q)"
  by (simp add: drain.simps Pop_def)

lemma drain_empty: "\<not> exit_now q \<Longrightarrow> fifo_queue q = [] \<Longrightarrow> drain q = ([], q)"
  by (simp add: drain.simps Pop_def)

lemma join_killed:
  assumes "exit_now q"
  shows "join th q s =
     Returns (q, case wt_position th of
                   in_Execute x \<Rightarrow> ExecuteOprBlock (wt_id th) (wt_run_ctx th) x s
                 | _ \<Rightarrow> s)"
  using assms by (cases "wt_position th") (simp_all add: join_def drain_killed)

lemma ThreadPool_dtor_killed:
  "exit_now q \<Longrightarrow> \<exists>s'. ThreadPool_dtor ths q s = Returns (q, s')"
  by (induction ths arbitrary: s) (simp_all add: join_killed)

lemma SignalForKill_idem: "SignalForKill (SignalForKill q) = SignalForKill q"
  by (simp add: SignalForKill_def)

lemma teardown_without_signal_blocks:
  assumes "wt_position th = in_Pop" "\<not> exit_now q" "fifo_queue q = []"
  shows "ThreadPool_dtor (th # ths) q s = Blocks (q, s)"
  using assms by (simp add: join_def drain_empty)

text \<open>
  Claim C5. The destructor of a worker block signals its queue first and tears the pool
  down on the signalled queue; whatever the threads of the pool are doing, the teardown
  returns, so no thread stays blocked in \<open>Pop\<close>. The signal needs no precondition, sets
  the flag for every queue, and signalling twice is signalling once; after it every
  \<open>Pop\<close> returns \<open>false\<close>. The order matters: on an empty queue that was not signalled,
  tearing the pool down never returns when a thread waits in \<open>Pop\<close>.
\<close>

theorem signal_before_teardown:
  "(\<exists>s'. ThreadWorkerBlock_dtor b threads s = Returns (SignalForKill (task_queue b), s'))
   \<and> ThreadWorkerBlock_dtor b threads s =
       (case pool b of
          None \<Rightarrow> Returns (SignalForKill (task_queue b), s)
        | Some p \<Rightarrow> ThreadPool_dtor threads (SignalForKill (task_queue b)) s)
   \<and> exit_now (SignalForKill q)
   \<and> SignalForKill (SignalForKill q) = SignalForKill q
   \<and> Pop (SignalForKill q) = PopFalse
   \<and> (wt_position th = in_Pop \<and> \<not> exit_now q \<and> fifo_queue q = [] \<longrightarrow>
        ThreadPool_dtor (th # ths) q s = Blocks (q, s))"
proof (intro conjI impI)
  have k: "exit_now (SignalForKill (task_queue b))" by (simp add: SignalForKill_def)
  show "\<exists>s'. ThreadWorkerBlock_dtor b threads s = Returns (SignalForKill (task_queue b), s')"
    using ThreadPool_dtor_killed[OF k, of threads s]
    by (cases "pool b") (simp_all add: ThreadWorkerBlock_dtor_def Let_def)
  show "ThreadWorkerBlock_dtor b threads s =
       (case pool b of
          None \<Rightarrow> Returns (SignalForKill (task_queue b), s)
        | Some p \<Rightarrow> ThreadPool_dtor threads (SignalForKill (task_queue b)) s)"
    by (simp add: ThreadWorkerBlock_dtor_def Let_def)
  show "exit_now (SignalForKill q)" by (simp add: SignalForKill_def)
  show "SignalForKill (SignalForKill q) = SignalForKill q" by (rule SignalForKill_idem)
  show "Pop (SignalForKill q) = PopFalse" by (simp add: Pop_def SignalForKill_def)
next
  assume "wt_position th = in_Pop \<and> \<not> exit_now q \<and> fifo_queue q = []"
  then show "ThreadPool_dtor (th # ths) q s = Blocks (q, s)"
    using teardown_without_signal_blocks by blast
qed

theorem signal_before_teardown_witness:
  "ThreadWorkerBlock_dtor
     \<lparr>task_queue = \<lparr>fifo_queue = [], exit_now = False\<rparr>,
      pool = Some \<lparr>pool_size = 2, pool_body = CPUWorker_body\<rparr>\<rparr>
     [\<lparr>wt_id = 1, wt_run_ctx = \<lparr>stream = None\<rparr>, wt_position = in_Pop\<rparr>,
      \<lparr>wt_id = 2, wt_run_ctx = \<lparr>stream = None\<rparr>, wt_position = in_Execute (task0 kNormal 1 0)\<rparr>]
     s0 =
   Returns (\<lparr>fifo_queue = [], exit_now = True\<rparr>,
            s0\<lparr>executed := [(2, \<lparr>stream = None\<rparr>, task0 kNormal 1 0)]\<rparr>) \<and>
   ThreadPool_dtor
     [\<lparr>wt_id = 1, wt_run_ctx = \<lparr>stream = None\<rparr>, wt_position = in_Pop\<rparr>,
      \<lparr>wt_id = 2, wt_run_ctx = \<lparr>stream = None\<rparr>, wt_position = in_Execute (task0 kNormal 1 0)\<rparr>]
     \<lparr>fifo_queue = [], exit_now = False\<rparr> s0 =
   Blocks (\<lparr>fifo_queue = [], exit_now = False\<rparr>, s0)"
proof -
  let ?q = "\<lparr>fifo_queue = []::OprBlock list, exit_now = False\<rparr>"
  let ?b = "\<lparr>task_queue = ?q, pool = Some \<lparr>pool_size = 2, pool_body = CPUWorker_body\<rparr>\<rparr>"
  let ?t1 = "\<lparr>wt_id = 1, wt_run_ctx = \<lparr>stream = None\<rparr>, wt_position = in_Pop\<rparr>"
  let ?t2 = "\<lparr>wt_id = 2, wt_run_ctx = \<lparr>stream = None\<rparr>,
              wt_position = in_Execute (task0 kNormal 1 0)\<rparr>"
  have e: "executed s0 = []" by (simp add: s0_simps)
  have k: "exit_now \<lparr>fifo_queue = []::OprBlock list, exit_now = True\<rparr>" by simp
  note t = signal_before_teardown[of ?b "[?t1, ?t2]" s0 ?q ?t1 "[?t2]"]
  have "ThreadWorkerBlock_dtor ?b [?t1, ?t2] s0 =
      ThreadPool_dtor [?t1, ?t2] (SignalForKill (task_queue ?b)) s0"
    unfolding t[THEN conjunct2, THEN conjunct1] by simp
  also have "\<dots> = Returns (\<lparr>fifo_queue = [], exit_now = True\<rparr>,
            s0\<lparr>executed := [(2, \<lparr>stream = None\<rparr>, task0 kNormal 1 0)]\<rparr>)"
    using e by (simp add: SignalForKill_def join_killed[OF k] ExecuteOprBlock_def)
  finally have a: "ThreadWorkerBlock_dtor ?b [?t1, ?t2] s0 =
     Returns (\<lparr>fifo_queue = [], exit_now = True\<rparr>,
            s0\<lparr>executed := [(2, \<lparr>stream = None\<rparr>, task0 kNormal 1 0)]\<rparr>)" .
  have "wt_position ?t1 = in_Pop \<and> \<not> exit_now ?q \<and> fifo_queue ?q = []" by simp
  with t have b: "ThreadPool_dtor [?t1, ?t2] ?q s0 = Blocks (?q, s0)" by blast
  from a b show ?thesis by (rule conjI)
qed

section \<open>Concurrent calls of \<open>GetGPUWorkerBlock\<close>\<close>

lemma at_slot:
  "engine_inv K s \<Longrightarrow> i < kMaxNumGPUs K \<Longrightarrow> at (workers_of c s) i = Inr (slot s c i)"
  by (simp add: at_def slot_def len_workers_of)

lemma thread_step_sound:
  assumes inv: "engine_inv K s"
    and ci: "call_inv K s (i, p, st)"
    and lk: "holds_lock st \<longleftrightarrow> m = Some t"
    and ts: "thread_step K t i p (m, s) st = Some ((m', s'), st')"
  shows "engine_inv K s' \<and> call_inv K s' (i, p, st') \<and> (holds_lock st' \<longleftrightarrow> m' = Some t) \<and>
         (\<forall>c' i' b. slot s c' i' = Some b \<longrightarrow> slot s' c' i' = Some b) \<and>
         (\<forall>c' i'. slot s' c' i' \<noteq> slot s c' i' \<longrightarrow> st = Create \<and> c' = is_copy_prop p \<and> i' = i) \<and>
         (m' \<noteq> m \<longrightarrow> (m = None \<and> m' = Some t) \<or> (m = Some t \<and> m' = None))"
proof (cases st)
  case Check
  with ts lk inv show ?thesis by (auto simp: thread_step_def split: if_splits)
next
  case FirstRead
  with ci have i: "i < kMaxNumGPUs K" by simp
  from ts lk inv FirstRead i show ?thesis
    by (cases "slot s (is_copy_prop p) i") (auto simp: thread_step_def at_slot[OF inv i])
next
  case Lock
  with ci have i: "i < kMaxNumGPUs K" by simp
  from ts lk inv Lock i show ?thesis
    by (auto simp: thread_step_def split: if_splits)
next
  case SecondRead
  with ci have i: "i < kMaxNumGPUs K" by simp
  from ts lk inv SecondRead i show ?thesis
    by (cases "slot s (is_copy_prop p) i") (auto simp: thread_step_def at_slot[OF inv i])
next
  case Create
  with ci have i: "i < kMaxNumGPUs K" and e: "slot s (is_copy_prop p) i = None" by simp_all
  have l: "i < length (workers_of (is_copy_prop p) s)" using i len_workers_of[OF inv] by simp
  from ts Create have s': "s' = alloc_block (is_copy_prop p) i s" and m': "m' = m" and st': "st' = Get"
    by (auto simp: thread_step_def)
  have "engine_inv K s'" unfolding s' by (rule inv_alloc[OF inv i e])
  moreover have "call_inv K s' (i, p, st')" using i by (simp add: st' s' slot_alloc[OF l])
  moreover have "holds_lock st' \<longleftrightarrow> m' = Some t" using lk Create by (simp add: st' m')
  moreover have "\<forall>c' i' b. slot s c' i' = Some b \<longrightarrow> slot s' c' i' = Some b"
    using e by (auto simp: s' slot_alloc[OF l])
  moreover have "\<forall>c' i'. slot s' c' i' \<noteq> slot s c' i' \<longrightarrow> st = Create \<and> c' = is_copy_prop p \<and> i' = i"
    using Create by (auto simp: s' slot_alloc[OF l] split: if_splits)
  ultimately show ?thesis using m' by simp
next
  case Get
  with ci have i: "i < kMaxNumGPUs K" and e: "slot s (is_copy_prop p) i \<noteq> None" by simp_all
  from ts lk inv Get i e show ?thesis
    by (cases "slot s (is_copy_prop p) i") (auto simp: thread_step_def at_slot[OF inv i])
next
  case (StartPool b)
  with ci have i: "i < kMaxNumGPUs K" and e: "slot s (is_copy_prop p) i = Some b" by simp_all
  from ts StartPool have s': "s' = start_pool (is_copy_prop p) i b s" and m': "m' = m"
    and st': "st' = Unlock b"
    by (auto simp: thread_step_def)
  show ?thesis using inv i e lk StartPool
    by (simp add: s' m' st' inv_start_pool slot_start_pool)
next
  case (Unlock b)
  with ci have i: "i < kMaxNumGPUs K" and e: "slot s (is_copy_prop p) i = Some b" by simp_all
  from ts lk inv Unlock i e show ?thesis by (auto simp: thread_step_def)
next
  case (Returned b)
  with ts show ?thesis by (simp add: thread_step_def)
next
  case (Aborted e)
  with ts show ?thesis by (simp add: thread_step_def)
qed

lemma other_call_preserved:
  assumes ci': "call_inv K s (i', p', st'')"
    and lk': "holds_lock st'' \<longleftrightarrow> m = Some t'"
    and ne: "t' \<noteq> t"
    and lk: "holds_lock st \<longleftrightarrow> m = Some t"
    and stable: "\<forall>c' i' b. slot s c' i' = Some b \<longrightarrow> slot s' c' i' = Some b"
    and changed: "\<forall>c' i'. slot s' c' i' \<noteq> slot s c' i' \<longrightarrow> st = Create \<and> c' = c \<and> i' = i"
    and mm: "m' \<noteq> m \<longrightarrow> (m = None \<and> m' = Some t) \<or> (m = Some t \<and> m' = None)"
  shows "call_inv K s' (i', p', st'') \<and> (holds_lock st'' \<longleftrightarrow> m' = Some t')"
proof
  show "call_inv K s' (i', p', st'')"
  proof (cases st'')
    case Create
    with lk' have "m = Some t'" by simp
    with lk ne have "st \<noteq> Create" by auto
    with changed have "slot s' (is_copy_prop p') i' = slot s (is_copy_prop p') i'" by blast
    with ci' Create show ?thesis by simp
  next
    case Get
    with ci' obtain b where "slot s (is_copy_prop p') i' = Some b" by auto
    with stable have "slot s' (is_copy_prop p') i' = Some b" by blast
    with ci' Get show ?thesis by simp
  next
    case (StartPool b)
    with ci' stable show ?thesis by simp
  next
    case (Unlock b)
    with ci' stable show ?thesis by simp
  next
    case (Returned b)
    with ci' stable show ?thesis by simp
  qed (use ci' in simp_all)
  show "holds_lock st'' \<longleftrightarrow> m' = Some t'"
    using lk' mm ne by (cases "m' = m") auto
qed

lemma step_preserves:
  assumes "system_inv K \<sigma>" and "step K \<sigma> \<sigma>'"
  shows "system_inv K \<sigma>'"
  using assms(2)
proof cases
  case (call_step t i p st m' s' st')
  let ?m = "create_mutex \<sigma>" and ?s = "engine \<sigma>"
  from assms(1) call_step(2) have inv: "engine_inv K ?s"
    and all: "\<And>u. u < length (calls \<sigma>) \<Longrightarrow>
        call_inv K ?s (calls \<sigma> ! u) \<and> (holds_lock (snd (snd (calls \<sigma> ! u))) \<longleftrightarrow> ?m = Some u)"
    by (simp_all add: system_inv_def)
  from all[OF call_step(2)] call_step(3)
  have ci: "call_inv K ?s (i, p, st)" and lk: "holds_lock st \<longleftrightarrow> ?m = Some t" by simp_all
  note snd = thread_step_sound[OF inv ci lk call_step(5)]
  have e: "engine \<sigma>' = s'" "create_mutex \<sigma>' = m'"
    "calls \<sigma>' = (calls \<sigma>)[t := (i, p, st')]" by (simp_all add: call_step(1))
  have "call_inv K s' (calls \<sigma>' ! u) \<and> (holds_lock (snd (snd (calls \<sigma>' ! u))) \<longleftrightarrow> m' = Some u)"
    if u: "u < length (calls \<sigma>')" for u
  proof (cases "u = t")
    case True
    then show ?thesis using snd call_step(2) by (simp add: e)
  next
    case False
    obtain i' p' st'' where c: "calls \<sigma> ! u = (i', p', st'')" by (cases "calls \<sigma> ! u") auto
    from u have u': "u < length (calls \<sigma>)" by (simp add: e)
    from all[OF u'] c have ci': "call_inv K ?s (i', p', st'')"
      and lk': "holds_lock st'' \<longleftrightarrow> ?m = Some u" by simp_all
    from snd have stable: "\<forall>c' i' b. slot ?s c' i' = Some b \<longrightarrow> slot s' c' i' = Some b"
      and changed: "\<forall>c' i'. slot s' c' i' \<noteq> slot ?s c' i' \<longrightarrow>
                      st = Create \<and> c' = is_copy_prop p \<and> i' = i"
      and mm: "m' \<noteq> ?m \<longrightarrow> (?m = None \<and> m' = Some t) \<or> (?m = Some t \<and> m' = None)"
      by blast+
    from other_call_preserved[OF ci' lk' False lk stable changed mm] False c
    show ?thesis by (simp add: e)
  qed
  with snd show ?thesis by (simp add: system_inv_def e)
next
  case (new_call t i p b i' p')
  from assms(1) new_call(2) have inv: "engine_inv K (engine \<sigma>)"
    and all: "\<And>u. u < length (calls \<sigma>) \<Longrightarrow>
        call_inv K (engine \<sigma>) (calls \<sigma> ! u) \<and>
        (holds_lock (snd (snd (calls \<sigma> ! u))) \<longleftrightarrow> create_mutex \<sigma> = Some u)"
    by (simp_all add: system_inv_def)
  from all[OF new_call(2)] new_call(3) have nl: "create_mutex \<sigma> \<noteq> Some t" by simp
  have e: "engine \<sigma>' = engine \<sigma>" "create_mutex \<sigma>' = create_mutex \<sigma>"
    "calls \<sigma>' = (calls \<sigma>)[t := (i', p', Check)]" by (simp_all add: new_call(1))
  have "call_inv K (engine \<sigma>) (calls \<sigma>' ! u) \<and>
        (holds_lock (snd (snd (calls \<sigma>' ! u))) \<longleftrightarrow> create_mutex \<sigma> = Some u)"
    if u: "u < length (calls \<sigma>')" for u
  proof (cases "u = t")
    case True
    then show ?thesis using nl new_call(2) by (simp add: e)
  next
    case False
    from u have "u < length (calls \<sigma>)" by (simp add: e)
    from all[OF this] False show ?thesis by (simp add: e)
  qed
  with inv show ?thesis by (simp add: system_inv_def e)
qed

lemma initial_inv: "initial K \<sigma> \<Longrightarrow> system_inv K \<sigma>"
proof -
  assume i: "initial K \<sigma>"
  then have c: "\<And>t. t < length (calls \<sigma>) \<Longrightarrow> snd (snd (calls \<sigma> ! t)) = Check"
    by (simp add: initial_def list_all_length)
  have "call_inv K (engine \<sigma>) (calls \<sigma> ! t) \<and>
        (holds_lock (snd (snd (calls \<sigma> ! t))) \<longleftrightarrow> create_mutex \<sigma> = Some t)"
    if "t < length (calls \<sigma>)" for t
    using c[OF that] i by (cases "calls \<sigma> ! t") (simp add: initial_def)
  with i show ?thesis by (simp add: system_inv_def initial_def)
qed

lemma steps_preserve: "(step K)\<^sup>*\<^sup>* \<sigma> \<sigma>' \<Longrightarrow> system_inv K \<sigma> \<Longrightarrow> system_inv K \<sigma>'"
  by (induction rule: rtranclp_induct) (auto intro: step_preserves)

lemma reachable_inv: "reachable K \<sigma> \<Longrightarrow> system_inv K \<sigma>"
  unfolding reachable_def using steps_preserve initial_inv by blast

lemma run_schedule_steps: "(step K)\<^sup>*\<^sup>* \<sigma> (run_schedule K ts \<sigma>)"
proof (induction ts arbitrary: \<sigma>)
  case Nil
  show ?case by simp
next
  case (Cons t ts)
  show ?case
  proof (cases "t < length (calls \<sigma>) \<and> no_abort \<sigma>")
    case False
    with Cons show ?thesis by auto
  next
    case True
    obtain i p st where c: "calls \<sigma> ! t = (i, p, st)" by (cases "calls \<sigma> ! t") auto
    show ?thesis
    proof (cases "thread_step K t i p (create_mutex \<sigma>, engine \<sigma>) st")
      case None
      with True c Cons show ?thesis by simp
    next
      case (Some r)
      obtain m' s' st' where r: "r = ((m', s'), st')" by (cases r) auto
      let ?\<sigma>' = "\<sigma>\<lparr>create_mutex := m', engine := s', calls := (calls \<sigma>)[t := (i, p, st')]\<rparr>"
      from True c Some r have "step K \<sigma> ?\<sigma>'" by (auto intro: step.call_step)
      moreover have "(step K)\<^sup>*\<^sup>* ?\<sigma>' (run_schedule K ts ?\<sigma>')" by (rule Cons)
      moreover have "run_schedule K (t # ts) \<sigma> = run_schedule K ts ?\<sigma>'"
        using True c Some r by simp
      ultimately show ?thesis by simp
    qed
  qed
qed

lemma reachable_run_schedule: "initial K \<sigma> \<Longrightarrow> reachable K (run_schedule K ts \<sigma>)"
  unfolding reachable_def using run_schedule_steps by blast

lemma slot_bound: "engine_inv K s \<Longrightarrow> slot s c i = Some b \<Longrightarrow> i < kMaxNumGPUs K"
  using len_workers_of[of K s c] by (auto simp: slot_def split: if_splits)

lemma heap_bound:
  assumes "engine_inv K s"
  shows "length (heap s) \<le> 2 * kMaxNumGPUs K"
proof -
  define f where "f b = (SOME ci. slot s (fst ci) (snd ci) = Some b)" for b
  have f: "slot s (fst (f b)) (snd (f b)) = Some b" if "b < length (heap s)" for b
  proof -
    from assms that obtain c i where "slot s c i = Some b" unfolding engine_inv_def by blast
    then have "\<exists>ci. slot s (fst ci) (snd ci) = Some b" by (intro exI[of _ "(c, i)"]) simp
    then show ?thesis unfolding f_def by (rule someI_ex)
  qed
  have inj: "inj_on f {..<length (heap s)}"
  proof (rule inj_onI)
    fix b b' assume b: "b \<in> {..<length (heap s)}" and b': "b' \<in> {..<length (heap s)}"
      and e: "f b = f b'"
    from b have "slot s (fst (f b)) (snd (f b)) = Some b" by (intro f) simp
    moreover from b' have "slot s (fst (f b')) (snd (f b')) = Some b'" by (intro f) simp
    ultimately have "Some b = Some b'" unfolding e by (rule trans[OF sym])
    then show "b = b'" by (rule option.inject[THEN iffD1])
  qed
  have sub: "f ` {..<length (heap s)} \<subseteq> (UNIV :: bool set) \<times> {..<kMaxNumGPUs K}"
  proof
    fix x assume "x \<in> f ` {..<length (heap s)}"
    then obtain b where b: "b < length (heap s)" "x = f b" by auto
    from slot_bound[OF assms f[OF b(1)]] have "snd x < kMaxNumGPUs K" by (simp add: b(2))
    then show "x \<in> UNIV \<times> {..<kMaxNumGPUs K}" by (simp add: mem_Times_iff)
  qed
  have "card {..<length (heap s)} \<le> card ((UNIV :: bool set) \<times> {..<kMaxNumGPUs K})"
    by (rule card_inj_on_le[OF inj sub]) simp
  then show ?thesis by (simp add: card_cartesian_product)
qed

lemma thread_step_entries:
  "(thread_step K t i p (m, s) st = Some (ms, Create) \<longrightarrow>
      st = SecondRead \<and> ms = (m, s) \<and> at (workers_of (is_copy_prop p) s) i = Inr None) \<and>
   (thread_step K t i p (m, s) st = Some (ms, SecondRead) \<longrightarrow>
      st = Lock \<and> m = None \<and> ms = (Some t, s)) \<and>
   (thread_step K t i p (m, s) st = Some (ms, Lock) \<longrightarrow>
      st = FirstRead \<and> ms = (m, s) \<and> at (workers_of (is_copy_prop p) s) i = Inr None)"
  by (cases st) (auto simp: thread_step_def split: if_splits sum.splits option.splits)

lemma thread_step_alloc:
  "thread_step K t i p (m, s) st = Some ((m', s'), st') \<Longrightarrow>
   length (heap s') \<noteq> length (heap s) \<Longrightarrow>
   st = Create \<and> m' = m \<and> s' = alloc_block (is_copy_prop p) i s \<and> st' = Get"
  by (cases st)
     (auto simp: thread_step_def heap_start_pool split: if_splits sum.splits option.splits)

lemma thread_step_acquire:
  "thread_step K t i p (m, s) st = Some ((m', s'), st') \<Longrightarrow> m' \<noteq> m \<Longrightarrow> m' \<noteq> None \<Longrightarrow>
   st = Lock \<and> m = None \<and> m' = Some t \<and> s' = s"
  by (cases st)
     (auto simp: thread_step_def split: if_splits sum.splits option.splits)

lemma thread_step_ready:
  assumes "engine_inv K s" "i < kMaxNumGPUs K" "slot s (is_copy_prop p) i = Some b"
  shows "thread_step K t i p (m, s) FirstRead = Some ((m, s), Returned b)"
  using assms by (simp add: thread_step_def at_slot)

lemma step_effect:
  assumes "system_inv K \<sigma>" and "step K \<sigma> \<sigma>'"
  shows "(\<forall>c i b. slot (engine \<sigma>) c i = Some b \<longrightarrow> slot (engine \<sigma>') c i = Some b) \<and>
         (length (heap (engine \<sigma>')) \<noteq> length (heap (engine \<sigma>)) \<longrightarrow>
            (\<exists>t i p. t < length (calls \<sigma>) \<and> calls \<sigma> ! t = (i, p, Create) \<and>
               create_mutex \<sigma> = Some t \<and> slot (engine \<sigma>) (is_copy_prop p) i = None \<and>
               engine \<sigma>' = alloc_block (is_copy_prop p) i (engine \<sigma>) \<and>
               slot (engine \<sigma>') (is_copy_prop p) i = Some (length (heap (engine \<sigma>)))))"
  using assms(2)
proof cases
  case (call_step t i p st m' s' st')
  let ?m = "create_mutex \<sigma>" and ?s = "engine \<sigma>"
  from assms(1) call_step(2) call_step(3) have inv: "engine_inv K ?s"
    and ci: "call_inv K ?s (i, p, st)" and lk: "holds_lock st \<longleftrightarrow> ?m = Some t"
    by (auto simp: system_inv_def)
  note snd = thread_step_sound[OF inv ci lk call_step(5)]
  have e: "engine \<sigma>' = s'" by (simp add: call_step(1))
  have "\<exists>t i p. t < length (calls \<sigma>) \<and> calls \<sigma> ! t = (i, p, Create) \<and>
               create_mutex \<sigma> = Some t \<and> slot ?s (is_copy_prop p) i = None \<and>
               s' = alloc_block (is_copy_prop p) i ?s \<and>
               slot s' (is_copy_prop p) i = Some (length (heap ?s))"
    if "length (heap s') \<noteq> length (heap ?s)"
  proof -
    from thread_step_alloc[OF call_step(5) that]
    have st: "st = Create" and s': "s' = alloc_block (is_copy_prop p) i ?s" by simp_all
    from ci st have i: "i < kMaxNumGPUs K" and n: "slot ?s (is_copy_prop p) i = None" by simp_all
    have l: "i < length (workers_of (is_copy_prop p) ?s)" using i len_workers_of[OF inv] by simp
    have "slot s' (is_copy_prop p) i = Some (length (heap ?s))" by (simp add: s' slot_alloc[OF l])
    moreover from lk st have "?m = Some t" by simp
    ultimately show ?thesis using call_step(2,3) st n s' by blast
  qed
  with snd show ?thesis unfolding e by blast
next
  case (new_call t i p b i' p')
  then show ?thesis by simp
qed

lemma run_call_GetGPUWorkerBlock:
  assumes "engine_inv K s"
  shows "run_call 8 K t i p (None, s) Check =
           (case GetGPUWorkerBlock K s i p of
              Inl e \<Rightarrow> ((None, s), Aborted e)
            | Inr (b, s') \<Rightarrow> ((None, s'), Returned b))"
proof (cases "i < kMaxNumGPUs K")
  case False
  then show ?thesis
    by (simp add: numeral_eq_Suc thread_step_def GetGPUWorkerBlock_def)
next
  case True
  let ?c = "is_copy_prop p"
  show ?thesis
  proof (cases "slot s ?c i")
    case (Some b)
    from GetGPUWorkerBlock_ready[OF assms True Some] True Some show ?thesis
      by (simp add: numeral_eq_Suc thread_step_def at_slot[OF assms True])
  next
    case None
    let ?s1 = "alloc_block ?c i s"
    have l: "i < length (workers_of ?c s)" using True len_workers_of[OF assms] by simp
    have inv1: "engine_inv K ?s1" by (rule inv_alloc[OF assms True None])
    have r: "at (workers_of ?c ?s1) i = Inr (Some (length (heap s)))"
      by (simp add: at_slot[OF inv1 True] slot_alloc[OF l])
    from GetGPUWorkerBlock_empty[OF assms True None] True None r show ?thesis
      by (simp add: numeral_eq_Suc thread_step_def at_slot[OF assms True])
  qed
qed

text \<open>
  Claim C4. In every state that concurrent calls of \<open>GetGPUWorkerBlock\<close> can reach: a step
  allocates a worker block only when it is the step at line 116 of the thread that holds
  the mutex, on a slot that is empty at that moment, and a call gets there only after it has
  read the slot empty without the mutex (line 107), taken the mutex (line 111) and read it
  empty again (line 113); a slot that holds a block holds the same block after every step,
  a call that finds it filled returns that block and leaves the engine as it is, and every
  call that has returned holds the block of its slot. So every block that was ever
  allocated is the block of exactly one slot, no slot ever holds a second one, and there
  are never more than \<open>2 * kMaxNumGPUs\<close> blocks.
\<close>

theorem one_block_per_slot:
  assumes "reachable K \<sigma>"
  shows "engine_inv K (engine \<sigma>) \<and>
         length (heap (engine \<sigma>)) \<le> 2 * kMaxNumGPUs K \<and>
         (\<forall>t i p b. t < length (calls \<sigma>) \<and> calls \<sigma> ! t = (i, p, Returned b) \<longrightarrow>
            slot (engine \<sigma>) (is_copy_prop p) i = Some b) \<and>
         (\<forall>t i p m b. i < kMaxNumGPUs K \<and> slot (engine \<sigma>) (is_copy_prop p) i = Some b \<longrightarrow>
            thread_step K t i p (m, engine \<sigma>) FirstRead = Some ((m, engine \<sigma>), Returned b) \<and>
            GetGPUWorkerBlock K (engine \<sigma>) i p = Inr (b, engine \<sigma>)) \<and>
         (\<forall>\<sigma>'. step K \<sigma> \<sigma>' \<longrightarrow>
            (\<forall>c i b. slot (engine \<sigma>) c i = Some b \<longrightarrow> slot (engine \<sigma>') c i = Some b) \<and>
            (length (heap (engine \<sigma>')) \<noteq> length (heap (engine \<sigma>)) \<longrightarrow>
               (\<exists>t i p. t < length (calls \<sigma>) \<and> calls \<sigma> ! t = (i, p, Create) \<and>
                  create_mutex \<sigma> = Some t \<and> slot (engine \<sigma>) (is_copy_prop p) i = None \<and>
                  engine \<sigma>' = alloc_block (is_copy_prop p) i (engine \<sigma>) \<and>
                  slot (engine \<sigma>') (is_copy_prop p) i = Some (length (heap (engine \<sigma>)))))) \<and>
         (\<forall>t i p m s st ms.
            (thread_step K t i p (m, s) st = Some (ms, Create) \<longrightarrow>
               st = SecondRead \<and> ms = (m, s) \<and> at (workers_of (is_copy_prop p) s) i = Inr None) \<and>
            (thread_step K t i p (m, s) st = Some (ms, SecondRead) \<longrightarrow>
               st = Lock \<and> m = None \<and> ms = (Some t, s)) \<and>
            (thread_step K t i p (m, s) st = Some (ms, Lock) \<longrightarrow>
               st = FirstRead \<and> ms = (m, s) \<and> at (workers_of (is_copy_prop p) s) i = Inr None))"
proof -
  from reachable_inv[OF assms] have si: "system_inv K \<sigma>" .
  then have inv: "engine_inv K (engine \<sigma>)" by (simp add: system_inv_def)
  have ret: "\<forall>t i p b. t < length (calls \<sigma>) \<and> calls \<sigma> ! t = (i, p, Returned b) \<longrightarrow>
            slot (engine \<sigma>) (is_copy_prop p) i = Some b"
    using si by (auto simp: system_inv_def)
  have rdy: "\<forall>t i p m b. i < kMaxNumGPUs K \<and> slot (engine \<sigma>) (is_copy_prop p) i = Some b \<longrightarrow>
            thread_step K t i p (m, engine \<sigma>) FirstRead = Some ((m, engine \<sigma>), Returned b) \<and>
            GetGPUWorkerBlock K (engine \<sigma>) i p = Inr (b, engine \<sigma>)"
    using thread_step_ready[OF inv] GetGPUWorkerBlock_ready[OF inv] by simp
  have eff: "\<forall>\<sigma>'. step K \<sigma> \<sigma>' \<longrightarrow>
            (\<forall>c i b. slot (engine \<sigma>) c i = Some b \<longrightarrow> slot (engine \<sigma>') c i = Some b) \<and>
            (length (heap (engine \<sigma>')) \<noteq> length (heap (engine \<sigma>)) \<longrightarrow>
               (\<exists>t i p. t < length (calls \<sigma>) \<and> calls \<sigma> ! t = (i, p, Create) \<and>
                  create_mutex \<sigma> = Some t \<and> slot (engine \<sigma>) (is_copy_prop p) i = None \<and>
                  engine \<sigma>' = alloc_block (is_copy_prop p) i (engine \<sigma>) \<and>
                  slot (engine \<sigma>') (is_copy_prop p) i = Some (length (heap (engine \<sigma>)))))"
    by (intro allI impI) (rule step_effect[OF si])
  have ent: "\<forall>t i p m s st ms.
            (thread_step K t i p (m, s) st = Some (ms, Create) \<longrightarrow>
               st = SecondRead \<and> ms = (m, s) \<and> at (workers_of (is_copy_prop p) s) i = Inr None) \<and>
            (thread_step K t i p (m, s) st = Some (ms, SecondRead) \<longrightarrow>
               st = Lock \<and> m = None \<and> ms = (Some t, s)) \<and>
            (thread_step K t i p (m, s) st = Some (ms, Lock) \<longrightarrow>
               st = FirstRead \<and> ms = (m, s) \<and> at (workers_of (is_copy_prop p) s) i = Inr None)"
    by (intro allI) (rule thread_step_entries)
  from inv heap_bound[OF inv] ret rdy eff ent show ?thesis by (intro conjI)
qed

text \<open>
  Claim C6. A call of \<open>GetGPUWorkerBlock\<close> with a device id at or above \<open>kMaxNumGPUs\<close>
  fails the bound check, and does so in its first step, which leaves the mutex and the
  engine untouched; with a device id below the bound the call returns a block and its
  first step passes on to the first read. The mutex is only ever taken at line 111; in
  every reachable state a call that is past the check has a device id below the bound, and
  an aborted call has a device id at or above it, failed that very check and does not hold
  the mutex.
\<close>

theorem device_bound_checked_first:
  "(kMaxNumGPUs K \<le> i \<longrightarrow>
      GetGPUWorkerBlock K s i p = Inl (CHECK_LT_failed i (kMaxNumGPUs K)) \<and>
      thread_step K t i p (m, s) Check =
        Some ((m, s), Aborted (CHECK_LT_failed i (kMaxNumGPUs K)))) \<and>
   (i < kMaxNumGPUs K \<and> engine_inv K s \<longrightarrow>
      (\<exists>b s'. GetGPUWorkerBlock K s i p = Inr (b, s')) \<and>
      thread_step K t i p (m, s) Check = Some ((m, s), FirstRead)) \<and>
   (\<forall>st m' s' st'. thread_step K t i p (m, s) st = Some ((m', s'), st') \<and> m' \<noteq> m \<and> m' \<noteq> None \<longrightarrow>
      st = Lock \<and> m = None \<and> m' = Some t) \<and>
   (reachable K \<sigma> \<longrightarrow>
      (\<forall>u j q st. u < length (calls \<sigma>) \<and> calls \<sigma> ! u = (j, q, st) \<longrightarrow>
         (is_Aborted st \<longrightarrow> kMaxNumGPUs K \<le> j \<and> st = Aborted (CHECK_LT_failed j (kMaxNumGPUs K)) \<and>
                            create_mutex \<sigma> \<noteq> Some u) \<and>
         (st \<noteq> Check \<and> \<not> is_Aborted st \<longrightarrow> j < kMaxNumGPUs K)))"
proof (intro conjI impI allI)
  assume "kMaxNumGPUs K \<le> i"
  then show "GetGPUWorkerBlock K s i p = Inl (CHECK_LT_failed i (kMaxNumGPUs K))"
    by (rule GetGPUWorkerBlock_abort)
  from \<open>kMaxNumGPUs K \<le> i\<close>
  show "thread_step K t i p (m, s) Check =
          Some ((m, s), Aborted (CHECK_LT_failed i (kMaxNumGPUs K)))"
    by (simp add: thread_step_def)
next
  assume a: "i < kMaxNumGPUs K \<and> engine_inv K s"
  then show "\<exists>b s'. GetGPUWorkerBlock K s i p = Inr (b, s')"
    using GetGPUWorkerBlock_returns by blast
  from a show "thread_step K t i p (m, s) Check = Some ((m, s), FirstRead)"
    by (simp add: thread_step_def)
next
  fix st m' s' st'
  assume a: "thread_step K t i p (m, s) st = Some ((m', s'), st') \<and> m' \<noteq> m \<and> m' \<noteq> None"
  with thread_step_acquire[of K t i p m s st m' s' st']
  show "st = Lock" "m = None" "m' = Some t" by simp_all
next
  fix u j q st
  assume r: "reachable K \<sigma>" and u: "u < length (calls \<sigma>) \<and> calls \<sigma> ! u = (j, q, st)"
  from reachable_inv[OF r] u
  have ci: "call_inv K (engine \<sigma>) (j, q, st)" and lk: "holds_lock st \<longleftrightarrow> create_mutex \<sigma> = Some u"
    by (auto simp: system_inv_def)
  {
    assume "is_Aborted st"
    then obtain e where e: "st = Aborted e" by (cases st) simp_all
    with ci lk show "kMaxNumGPUs K \<le> j" "st = Aborted (CHECK_LT_failed j (kMaxNumGPUs K))"
      "create_mutex \<sigma> \<noteq> Some u" by simp_all
  }
  {
    assume "st \<noteq> Check \<and> \<not> is_Aborted st"
    with ci show "j < kMaxNumGPUs K" by (cases st) simp_all
  }
qed

lemma K0_simps:
  "kMaxNumGPUs K0 = 4" "cpu_kDevMask K0 = 1" "gpu_kDevMask K0 = 2"
  by (simp_all add: K0_def)

lemma initial_race0: "initial K0 race0"
  using inv_ctor[of K0 env0] by (simp add: initial_def race0_def s0_def)

lemma initial_late0: "initial K0 late0"
  using inv_ctor[of K0 env0] by (simp add: initial_def late0_def s0_def)

lemma race_result:
  "run_schedule K0 race_schedule race0 =
     \<lparr>create_mutex = None,
      engine = s0\<lparr>gpu_normal_workers := [None, Some 0, None, None],
                  heap := [\<lparr>task_queue = \<lparr>fifo_queue = [], exit_now = False\<rparr>,
                           pool = Some \<lparr>pool_size = 2, pool_body = GPUWorker_body 1 False 0\<rparr>\<rparr>]\<rparr>,
      calls = [(1, kNormal, Returned 0), (1, kAsync, Returned 0)]\<rparr>"
  by (simp add: race_schedule_def race0_def s0_simps no_abort_def thread_step_def K0_simps
      is_copy_prop_def at_def workers_of_def alloc_block_def start_pool_def set_worker_def
      new_ThreadWorkerBlock_def new_queue_def new_ThreadPool_def size_t_of_int_def)

lemma late_result:
  "run_schedule K0 [0] late0 =
     \<lparr>create_mutex = None, engine = s0,
      calls = [(9, kCopyToGPU, Aborted (CHECK_LT_failed 9 4))]\<rparr>"
  by (simp add: late0_def no_abort_def thread_step_def K0_simps)

theorem one_block_per_slot_witness:
  "reachable K0 (run_schedule K0 race_schedule race0) \<and>
   calls (run_schedule K0 race_schedule race0) =
     [(1, kNormal, Returned 0), (1, kAsync, Returned 0)] \<and>
   length (heap (engine (run_schedule K0 race_schedule race0))) = 1 \<and>
   engine_inv K0 (engine (run_schedule K0 race_schedule race0)) \<and>
   slot (engine (run_schedule K0 race_schedule race0)) (is_copy_prop kAsync) 1 = Some 0 \<and>
   slot (engine (run_schedule K0 race_schedule race0)) (is_copy_prop kNormal) 1 = Some 0"
proof -
  let ?\<sigma> = "run_schedule K0 race_schedule race0"
  have r: "reachable K0 ?\<sigma>" by (rule reachable_run_schedule[OF initial_race0])
  have c: "calls ?\<sigma> = [(1, kNormal, Returned 0), (1, kAsync, Returned 0)]"
    by (simp add: race_result)
  have h: "length (heap (engine ?\<sigma>)) = 1" by (simp add: race_result)
  note t = one_block_per_slot[OF r]
  from t have i: "engine_inv K0 (engine ?\<sigma>)" by (rule conjunct1)
  from t have ret: "\<forall>t i p b. t < length (calls ?\<sigma>) \<and> calls ?\<sigma> ! t = (i, p, Returned b) \<longrightarrow>
            slot (engine ?\<sigma>) (is_copy_prop p) i = Some b"
    by (rule conjunct2[THEN conjunct2, THEN conjunct1])
  have "1 < length (calls ?\<sigma>) \<and> calls ?\<sigma> ! 1 = (1, kAsync, Returned 0)" by (simp add: c)
  with ret have a: "slot (engine ?\<sigma>) (is_copy_prop kAsync) 1 = Some 0" by blast
  have "0 < length (calls ?\<sigma>) \<and> calls ?\<sigma> ! 0 = (1, kNormal, Returned 0)" by (simp add: c)
  with ret have b: "slot (engine ?\<sigma>) (is_copy_prop kNormal) 1 = Some 0" by blast
  from r c h i a b show ?thesis by (intro conjI)
qed

theorem device_bound_checked_first_witness:
  "kMaxNumGPUs K0 \<le> 9 \<and>
   GetGPUWorkerBlock K0 s0 9 kCopyToGPU = Inl (CHECK_LT_failed 9 4) \<and>
   thread_step K0 0 9 kCopyToGPU (None, s0) Check = Some ((None, s0), Aborted (CHECK_LT_failed 9 4)) \<and>
   3 < kMaxNumGPUs K0 \<and> engine_inv K0 s0 \<and>
   (\<exists>b s'. GetGPUWorkerBlock K0 s0 3 kCopyToGPU = Inr (b, s')) \<and>
   thread_step K0 0 3 kCopyToGPU (None, s0) Check = Some ((None, s0), FirstRead) \<and>
   reachable K0 (run_schedule K0 [0] late0) \<and>
   calls (run_schedule K0 [0] late0) ! 0 = (9, kCopyToGPU, Aborted (CHECK_LT_failed 9 4)) \<and>
   create_mutex (run_schedule K0 [0] late0) \<noteq> Some 0"
proof -
  let ?\<sigma> = "run_schedule K0 [0] late0"
  have k: "kMaxNumGPUs K0 \<le> 9" "3 < kMaxNumGPUs K0" by (simp_all add: K0_simps)
  have i: "engine_inv K0 s0" unfolding s0_def by (rule inv_ctor)
  have r: "reachable K0 ?\<sigma>" by (rule reachable_run_schedule[OF initial_late0])
  have c: "0 < length (calls ?\<sigma>) \<and> calls ?\<sigma> ! 0 = (9, kCopyToGPU, Aborted (CHECK_LT_failed 9 4))"
    unfolding late_result by simp
  note t1 = device_bound_checked_first[of K0 9 s0 kCopyToGPU 0 None ?\<sigma>]
  note t2 = device_bound_checked_first[of K0 3 s0 kCopyToGPU 0 None ?\<sigma>]
  from t1 k(1) have a: "GetGPUWorkerBlock K0 s0 9 kCopyToGPU = Inl (CHECK_LT_failed 9 (kMaxNumGPUs K0))"
    "thread_step K0 0 9 kCopyToGPU (None, s0) Check =
       Some ((None, s0), Aborted (CHECK_LT_failed 9 (kMaxNumGPUs K0)))"
    by blast+
  from t2 k(2) i have b: "\<exists>b s'. GetGPUWorkerBlock K0 s0 3 kCopyToGPU = Inr (b, s')"
    "thread_step K0 0 3 kCopyToGPU (None, s0) Check = Some ((None, s0), FirstRead)"
    by blast+
  from t1 r c have d: "create_mutex ?\<sigma> \<noteq> Some 0" by (metis is_Aborted.simps(1))
  from k i a b r c d show ?thesis by (simp add: K0_simps)
qed

end
